theory Spec2Isabelle
  imports Main "HOL-Library.Sublist" "HOL-Library.Multiset"
begin

section \<open>Data model of \<^verbatim>\<open>telegram_checker.py\<close>\<close>

text \<open>
  A Python string is a sequence of Unicode code points, so a string is a list of natural
  numbers, one per code point; \<open>lit\<close> turns the ASCII text of a string constant of the
  program into such a list. Instants and wall-clock times are integers counting
  microseconds: a message's \<^verbatim>\<open>date\<close> is an aware UTC datetime (microseconds since the
  epoch), a local datetime is the wall-clock reading in the zone \<^verbatim>\<open>Europe/Kyiv\<close>
  (microseconds since 0001-01-01 00:00:00 on that wall clock, the way \<^verbatim>\<open>datetime\<close>
  stores it as ordinal day, second and microsecond).
\<close>

type_synonym codepoint = nat
type_synonym str = "codepoint list"

definition lit :: "string \<Rightarrow> str" where
  "lit s = map of_char s"

datatype error =
    MsgIdInvalidError str
  | RemoteError str
  | TypeError
  | OverflowError

text \<open>
  An entity returned by \<^verbatim>\<open>client.get_entity\<close>. A basic group (\<open>Chat\<close>) has no attribute
  \<^verbatim>\<open>username\<close> at all; a channel or user has one, which may be \<^verbatim>\<open>None\<close>.
\<close>

datatype entity =
    Chat int
  | Channel int "str option"

record message =
  msg_id :: int
  msg_text :: "str option"
  date :: int
  reply_to_msg_id :: "int option"
  replies :: "nat option"

type_synonym post_item = "entity \<times> message \<times> str"
type_synonym comment_item = "entity \<times> message \<times> str \<times> message"

record config =
  api_id :: int
  api_hash :: str
  groups :: "str list"
  cfg_keywords :: "str list"
  time_filter :: int

section \<open>The remote client, the zone, the Unicode tables and the process state\<close>

text \<open>
  What the program takes from outside. \<open>get_entity\<close> resolves a group identifier or
  raises (\<open>Inl\<close> carries the text of the exception). \<open>iter_messages entity reply_to\<close> is
  the stream of messages, newest first: the messages it yields, and then either its end
  (\<open>None\<close>) or the exception raised when the next message is requested. \<open>astimezone\<close>
  converts an instant to the wall clock of \<^verbatim>\<open>Europe/Kyiv\<close>, \<open>strftime\<close> formats a
  wall-clock reading as \<^verbatim>\<open>%Y-%m-%d %H:%M:%S\<close>.

  The case mappings of Unicode belong to the Python library and are taken as they are:
  \<open>str_lower\<close> is \<^verbatim>\<open>str.lower\<close>, a function on whole strings (it may change the length
  of a string), and \<open>ignorecase p c\<close> says whether the pattern character \<open>p\<close>, compiled
  with \<^verbatim>\<open>re.IGNORECASE\<close>, matches the character \<open>c\<close> of the text. Nothing is assumed
  about either.
\<close>

record env =
  get_entity :: "str \<Rightarrow> str + entity"
  iter_messages :: "entity \<Rightarrow> int option \<Rightarrow> message list \<times> error option"
  now :: int
  astimezone :: "int \<Rightarrow> int"
  strftime :: "int \<Rightarrow> str"
  str_lower :: "str \<Rightarrow> str"
  ignorecase :: "codepoint \<Rightarrow> codepoint \<Rightarrow> bool"

text \<open>
  The state the program changes: the lines printed, the files written (under their
  names, which are constants of the program), and the list objects that \<^verbatim>\<open>save_posts\<close>
  and \<^verbatim>\<open>save_comments\<close> sort in place, addressed by reference.
\<close>

record world =
  console :: "str list"
  files :: "string \<Rightarrow> str option"
  post_lists :: "nat \<Rightarrow> post_item list"
  comment_lists :: "nat \<Rightarrow> comment_item list"
  fresh :: nat

definition print :: "str \<Rightarrow> world \<Rightarrow> world" where
  "print line w = w\<lparr>console := console w @ [line]\<rparr>"

definition new_post_list :: "post_item list \<Rightarrow> world \<Rightarrow> nat \<times> world" where
  "new_post_list xs w =
     (fresh w, w\<lparr>post_lists := (post_lists w)(fresh w := xs), fresh := Suc (fresh w)\<rparr>)"

definition new_comment_list :: "comment_item list \<Rightarrow> world \<Rightarrow> nat \<times> world" where
  "new_comment_list xs w =
     (fresh w, w\<lparr>comment_lists := (comment_lists w)(fresh w := xs), fresh := Suc (fresh w)\<rparr>)"

text \<open>
  \<^verbatim>\<open>str\<close> of an integer, as the f-strings format \<^verbatim>\<open>post.id\<close> and \<^verbatim>\<open>len(posts)\<close>; 48 is
  the code point of the digit 0.
\<close>

fun str_nat :: "nat \<Rightarrow> str" where
  "str_nat n = (if n < 10 then [48 + n] else str_nat (n div 10) @ [48 + n mod 10])"

declare str_nat.simps [simp del]

definition str_int :: "int \<Rightarrow> str" where
  "str_int i = (if i < 0 then lit ''-'' @ str_nat (nat (- i)) else str_nat (nat i))"

section \<open>Strings: the \<^verbatim>\<open>in\<close> operator\<close>

text \<open>\<^verbatim>\<open>t.startswith(k)\<close>, and \<^verbatim>\<open>k in t\<close> for strings: \<open>k\<close> occurs in \<open>t\<close> at some offset.\<close>

fun startswith :: "str \<Rightarrow> str \<Rightarrow> bool" where
  "startswith t [] = True"
| "startswith [] (k # ks) = False"
| "startswith (c # t) (k # ks) = (c = k \<and> startswith t ks)"

fun str_in :: "str \<Rightarrow> str \<Rightarrow> bool" where
  "str_in k [] = (k = [])"
| "str_in k (c # t) = (startswith (c # t) k \<or> str_in k t)"



section \<open>The keyword filter\<close>

text \<open>
  The condition of lines 86 and 134:
  \<^verbatim>\<open>m.text and any(keyword.lower() in m.text.lower() for keyword in self.keywords)\<close>.
  Both \<^verbatim>\<open>None\<close> and the empty string are falsy.
\<close>

definition has_keyword :: "env \<Rightarrow> str list \<Rightarrow> message \<Rightarrow> bool" where
  "has_keyword env kws m =
     (case msg_text m of
        None \<Rightarrow> False
      | Some t \<Rightarrow>
          t \<noteq> [] \<and> list_ex (\<lambda>keyword. str_in (str_lower env keyword) (str_lower env t)) kws)"

fun filter_posts_loop :: "env \<Rightarrow> str list \<Rightarrow> post_item list \<Rightarrow> post_item list \<Rightarrow> post_item list" where
  "filter_posts_loop env kws [] filtered = filtered"
| "filter_posts_loop env kws ((entity, post, group_username) # posts) filtered =
     (if has_keyword env kws post
      then filter_posts_loop env kws posts (filtered @ [(entity, post, group_username)])
      else filter_posts_loop env kws posts filtered)"

definition filter_posts_by_keywords :: "config \<Rightarrow> env \<Rightarrow> post_item list \<Rightarrow> post_item list" where
  "filter_posts_by_keywords cfg env posts = filter_posts_loop env (cfg_keywords cfg) posts []"

fun filter_comments_loop ::
  "env \<Rightarrow> str list \<Rightarrow> comment_item list \<Rightarrow> comment_item list \<Rightarrow> comment_item list" where
  "filter_comments_loop env kws [] filtered_comments = filtered_comments"
| "filter_comments_loop env kws ((entity, reply, group_username, post) # comments)
     filtered_comments =
     (if has_keyword env kws reply
      then filter_comments_loop env kws comments
             (filtered_comments @ [(entity, reply, group_username, post)])
      else filter_comments_loop env kws comments filtered_comments)"

section \<open>The highlighter\<close>

text \<open>
  \<^verbatim>\<open>re.compile("|".join(re.escape(keyword) for keyword in keywords), re.IGNORECASE)\<close>:
  every keyword is escaped, so the pattern is an alternation of literal strings, tried in
  the order of the list. Joining no keyword at all gives the empty pattern, which is the
  single empty alternative.
\<close>

definition pattern_alternatives :: "str list \<Rightarrow> str list" where
  "pattern_alternatives kws = (if kws = [] then [[]] else kws)"

text \<open>
  A literal alternative matched at the head of \<open>s\<close>: every character of the alternative
  takes one character of the text and has to match it under \<^verbatim>\<open>re.IGNORECASE\<close>.
\<close>

fun match_literal :: "(codepoint \<Rightarrow> codepoint \<Rightarrow> bool) \<Rightarrow> str \<Rightarrow> str \<Rightarrow> bool" where
  "match_literal ic [] s = True"
| "match_literal ic (p # ps) [] = False"
| "match_literal ic (p # ps) (c # cs) = (ic p c \<and> match_literal ic ps cs)"

text \<open>
  One match attempt at the head of \<open>s\<close>: the first alternative that matches there wins,
  and the length of the match is returned. With \<open>must_advance\<close> set an empty match is
  refused and the next alternative is tried.
\<close>

fun match_alternatives ::
  "(codepoint \<Rightarrow> codepoint \<Rightarrow> bool) \<Rightarrow> str list \<Rightarrow> bool \<Rightarrow> str \<Rightarrow> nat option" where
  "match_alternatives ic [] must_advance s = None"
| "match_alternatives ic (k # ks) must_advance s =
     (if match_literal ic k s \<and> \<not> (must_advance \<and> k = [])
      then Some (length k)
      else match_alternatives ic ks must_advance s)"

text \<open>
  \<^verbatim>\<open>pattern.sub(repl, text)\<close> scans the text from left to right. A match is handed to
  \<open>repl\<close> and the scan goes on behind it; after an empty match the next match at the same
  place must not be empty again. Where nothing matches, the character is copied. The
  result is collected as a list of pieces and joined at the end.
\<close>

datatype piece = Lit codepoint | Match str

lemma match_literal_length: "match_literal ic k s \<Longrightarrow> length k \<le> length s"
  by (induction ic k s rule: match_literal.induct) auto

lemma match_alternatives_bound:
  "match_alternatives ic alts must_advance s = Some n \<Longrightarrow>
     n \<le> length s \<and> (must_advance \<longrightarrow> 0 < n)"
  by (induction alts) (auto dest: match_literal_length split: if_splits)

function sub_pieces ::
  "(codepoint \<Rightarrow> codepoint \<Rightarrow> bool) \<Rightarrow> str list \<Rightarrow> bool \<Rightarrow> str \<Rightarrow> piece list" where
  "sub_pieces ic alts must_advance s =
     (case match_alternatives ic alts must_advance s of
        Some n \<Rightarrow> Match (take n s) # sub_pieces ic alts (n = 0) (drop n s)
      | None \<Rightarrow> (case s of [] \<Rightarrow> [] | c # cs \<Rightarrow> Lit c # sub_pieces ic alts False cs))"
  by pat_completeness auto
termination
proof (relation "measure (\<lambda>(ic, alts, must_advance, s).
    2 * length s + (if must_advance then 0 else 1))")
  show "wf (measure (\<lambda>(ic, alts, must_advance, s).
      2 * length s + (if must_advance then 0 else 1)))"
    by simp
next
  fix ic :: "codepoint \<Rightarrow> codepoint \<Rightarrow> bool" and alts :: "str list"
    and must_advance :: bool and s :: str and n :: nat
  assume "match_alternatives ic alts must_advance s = Some n"
  from match_alternatives_bound [OF this]
  show "((ic, alts, n = 0, drop n s), (ic, alts, must_advance, s))
      \<in> measure (\<lambda>(ic, alts, must_advance, s). 2 * length s + (if must_advance then 0 else 1))"
    by (cases "n = 0") auto
next
  fix ic :: "codepoint \<Rightarrow> codepoint \<Rightarrow> bool" and alts :: "str list"
    and must_advance :: bool and s :: str and c :: codepoint and cs :: str
  assume "s = c # cs"
  then show "((ic, alts, False, cs), (ic, alts, must_advance, s))
      \<in> measure (\<lambda>(ic, alts, must_advance, s). 2 * length s + (if must_advance then 0 else 1))"
    by simp
qed

text \<open>The replacement function \<open>repl\<close> of line 37 and the \<^verbatim>\<open>"".join\<close> of the pieces.\<close>

definition span_open :: str where
  \<open>span_open = lit ''<span style="background-color: yellow; color: black; font-weight: bold;">''\<close>

definition repl :: "str \<Rightarrow> str" where
  "repl g = span_open @ g @ lit ''</span>''"

fun render :: "piece \<Rightarrow> str" where
  "render (Lit c) = [c]"
| "render (Match g) = repl g"

definition highlight_keywords :: "env \<Rightarrow> str \<Rightarrow> str list \<Rightarrow> str" where
  "highlight_keywords env txt kws =
     concat (map render (sub_pieces (ignorecase env) (pattern_alternatives kws) False txt))"

section \<open>The time-window resolver\<close>

text \<open>
  \<^verbatim>\<open>_get_time_filter\<close> works on the wall clock of the zone: \<^verbatim>\<open>replace\<close> sets the time of
  day to zero and keeps the date, and subtracting a \<^verbatim>\<open>timedelta\<close> from an aware datetime
  moves the wall-clock reading without any zone adjustment. A result outside the years
  1 to 9999, or a \<^verbatim>\<open>timedelta\<close> too large to build, raises \<^verbatim>\<open>OverflowError\<close>. The argument
  \<open>wall\<close> is the reading \<^verbatim>\<open>datetime.now(self.tz)\<close>.
\<close>

definition hour_us :: int where
  "hour_us = 3600 * 1000000"

definition day_us :: int where
  "day_us = 24 * hour_us"

definition max_us :: int where
  "max_us = 3652059 * day_us"

definition get_time_filter :: "config \<Rightarrow> int \<Rightarrow> error + int" where
  "get_time_filter cfg wall =
     (if time_filter cfg = 0 then Inr (wall - wall mod day_us)
      else (let t = wall - time_filter cfg * hour_us
            in if 0 \<le> t \<and> t < max_us then Inr t else Inl OverflowError))"

section \<open>The post fetcher\<close>

text \<open>
  The loop of lines 68 to 74 over one group's stream: it stops at the first message older
  than the threshold and keeps a message only if it is not a reply. An exception of the
  stream is not caught here.
\<close>

fun scan_messages ::
  "(int \<Rightarrow> int) \<Rightarrow> int \<Rightarrow> entity \<Rightarrow> str \<Rightarrow> message list \<Rightarrow> error option
     \<Rightarrow> post_item list \<Rightarrow> error + post_item list" where
  "scan_messages tz time_threshold entity group_username [] None posts = Inr posts"
| "scan_messages tz time_threshold entity group_username [] (Some e) posts = Inl e"
| "scan_messages tz time_threshold entity group_username (msg # rest) fin posts =
     (let msg_time = tz (date msg) in
      if msg_time < time_threshold then Inr posts
      else if reply_to_msg_id msg = None
      then scan_messages tz time_threshold entity group_username rest fin
             (posts @ [(entity, msg, group_username)])
      else scan_messages tz time_threshold entity group_username rest fin posts)"

fun fetch_groups ::
  "env \<Rightarrow> int \<Rightarrow> str list \<Rightarrow> post_item list \<Rightarrow> world
     \<Rightarrow> (error + post_item list) \<times> world" where
  "fetch_groups env time_threshold [] posts w = (Inr posts, w)"
| "fetch_groups env time_threshold (group_username # gs) posts w =
     (case get_entity env group_username of
        Inl e \<Rightarrow>
          fetch_groups env time_threshold gs posts
            (print (lit ''Failed to access group '' @ group_username @ lit '': '' @ e) w)
      | Inr entity \<Rightarrow>
          (let w1 = print (lit ''Processing group: '' @ group_username) w in
           case iter_messages env entity None of
             (msgs, fin) \<Rightarrow>
               (case scan_messages (astimezone env) time_threshold entity group_username
                       msgs fin posts of
                  Inl err \<Rightarrow> (Inl err, w1)
                | Inr posts' \<Rightarrow> fetch_groups env time_threshold gs posts' w1)))"

definition fetch_posts :: "config \<Rightarrow> env \<Rightarrow> world \<Rightarrow> (error + post_item list) \<times> world" where
  "fetch_posts cfg env w =
     (case get_time_filter cfg (now env) of
        Inl err \<Rightarrow> (Inl err, w)
      | Inr time_threshold \<Rightarrow>
          (case fetch_groups env time_threshold (groups cfg) [] w of
             (Inl err, w') \<Rightarrow> (Inl err, w')
           | (Inr posts, w') \<Rightarrow>
               (Inr posts,
                print (lit ''Found '' @ str_nat (length posts)
                       @ lit '' posts for the specified period.'') w')))"

section \<open>The comment fetcher\<close>

text \<open>
  The loop of lines 120 to 129. Each reply is appended as soon as the stream yields it;
  \<^verbatim>\<open>MsgIdInvalidError\<close> is caught, printed, and the loop goes on with the next post. Any
  other exception leaves the function.
\<close>

fun collect_comments ::
  "env \<Rightarrow> post_item list \<Rightarrow> comment_item list \<Rightarrow> world
     \<Rightarrow> (error + comment_item list) \<times> world" where
  "collect_comments env [] comments w = (Inr comments, w)"
| "collect_comments env ((entity, post, group_username) # posts) comments w =
     (if replies post = None then collect_comments env posts comments w
      else
        (case iter_messages env entity (Some (msg_id post)) of
           (rs, fin) \<Rightarrow>
             (let comments' = comments @ map (\<lambda>reply. (entity, reply, group_username, post)) rs in
              case fin of
                None \<Rightarrow> collect_comments env posts comments' w
              | Some (MsgIdInvalidError e) \<Rightarrow>
                  collect_comments env posts comments'
                    (print (lit ''Skipping post '' @ str_int (msg_id post) @ lit '' from group ''
                            @ group_username @ lit '' due to error: '' @ e) w)
              | Some err \<Rightarrow> (Inl err, w))))"

definition fetch_comments ::
  "config \<Rightarrow> env \<Rightarrow> post_item list \<Rightarrow> world \<Rightarrow> (error + comment_item list) \<times> world" where
  "fetch_comments cfg env posts w =
     (case collect_comments env posts [] w of
        (Inl err, w') \<Rightarrow> (Inl err, w')
      | (Inr comments, w') \<Rightarrow>
          (let filtered_comments = filter_comments_loop env (cfg_keywords cfg) comments [] in
           (Inr filtered_comments,
            print (lit ''Found '' @ str_nat (length filtered_comments)
                   @ lit '' comments with keywords for posts in the specified period.'') w')))"

section \<open>The digest writers\<close>

text \<open>\<^verbatim>\<open>hasattr(entity, 'username') and entity.username\<close>: the username, if there is a non-empty one.\<close>

fun public_username :: "entity \<Rightarrow> str option" where
  "public_username (Chat i) = None"
| "public_username (Channel i None) = None"
| "public_username (Channel i (Some u)) = (if u = [] then None else Some u)"

definition post_link :: "entity \<Rightarrow> message \<Rightarrow> str" where
  "post_link entity post =
     (case public_username entity of
        Some u \<Rightarrow> lit ''https://t.me/'' @ u @ lit ''/'' @ str_int (msg_id post)
      | None \<Rightarrow> lit ''No public link'')"

definition comment_link :: "entity \<Rightarrow> message \<Rightarrow> message \<Rightarrow> str" where
  "comment_link entity post comment =
     (case public_username entity of
        Some u \<Rightarrow> lit ''https://t.me/'' @ u @ lit ''/'' @ str_int (msg_id post)
                  @ lit ''?comment='' @ str_int (msg_id comment)
      | None \<Rightarrow> lit ''No public link'')"

text \<open>
  What one pass of the loop body writes (lines 98 to 109 and 147 to 158). The text is
  highlighted before the first \<^verbatim>\<open>f.write\<close>, and \<^verbatim>\<open>pattern.sub\<close> raises \<^verbatim>\<open>TypeError\<close> on
  \<^verbatim>\<open>None\<close>, so an item without text writes nothing.
\<close>

definition post_entry :: "env \<Rightarrow> str list \<Rightarrow> post_item \<Rightarrow> error + str" where
  "post_entry env kws item =
     (case item of (entity, post, group_username) \<Rightarrow>
        (case msg_text post of
           None \<Rightarrow> Inl TypeError
         | Some t \<Rightarrow>
             Inr (lit ''### Group: '' @ group_username @ lit ''\<newline>''
                  @ lit ''**Date:** '' @ strftime env (astimezone env (date post))
                  @ lit '' (Kyiv)\<newline>\<newline>''
                  @ lit ''**Post:**\<newline>\<newline>''
                  @ highlight_keywords env t kws @ lit ''\<newline>\<newline>''
                  @ lit ''[Post Link]('' @ post_link entity post @ lit '')\<newline>\<newline>''
                  @ lit ''---\<newline>\<newline>'')))"

definition comment_entry :: "env \<Rightarrow> str list \<Rightarrow> comment_item \<Rightarrow> error + str" where
  "comment_entry env kws item =
     (case item of (entity, comment, group_username, post) \<Rightarrow>
        (case msg_text comment of
           None \<Rightarrow> Inl TypeError
         | Some t \<Rightarrow>
             Inr (lit ''### Group: '' @ group_username @ lit ''\<newline>''
                  @ lit ''**Comment Date:** '' @ strftime env (astimezone env (date comment))
                  @ lit '' (Kyiv)\<newline>\<newline>''
                  @ lit ''**Comment:**\<newline>\<newline>''
                  @ highlight_keywords env t kws @ lit ''\<newline>\<newline>''
                  @ lit ''[Comment Link]('' @ comment_link entity post comment
                  @ lit '')\<newline>\<newline>''
                  @ lit ''---\<newline>\<newline>'')))"

text \<open>
  The writing loop, generic in the entry function: it appends entry after entry to the
  file content and stops at the first exception, leaving what was written so far.
\<close>

fun write_entries :: "('a \<Rightarrow> error + str) \<Rightarrow> 'a list \<Rightarrow> str \<Rightarrow> error option \<times> str" where
  "write_entries entry [] f = (None, f)"
| "write_entries entry (item # items) f =
     (case entry item of
        Inl err \<Rightarrow> (Some err, f)
      | Inr s \<Rightarrow> write_entries entry items (f @ s))"

text \<open>
  \<^verbatim>\<open>posts.sort(key=lambda x: x[1].date)\<close> is a stable sort of the list object itself;
  \<^verbatim>\<open>open(..., 'w')\<close> replaces the file. The sort happens before the file is opened.
\<close>

definition save_posts :: "config \<Rightarrow> env \<Rightarrow> nat \<Rightarrow> world \<Rightarrow> (error + unit) \<times> world" where
  "save_posts cfg env r w =
     (let posts = sort_key (\<lambda>x. date (fst (snd x))) (post_lists w r);
          w1 = w\<lparr>post_lists := (post_lists w)(r := posts)\<rparr>;
          (raised, content) = write_entries (post_entry env (cfg_keywords cfg)) posts [];
          w2 = w1\<lparr>files := (files w1)(''saved_posts.md'' \<mapsto> content)\<rparr>
      in case raised of
           Some err \<Rightarrow> (Inl err, w2)
         | None \<Rightarrow>
             (Inr (),
              print (lit ''Saved '' @ str_nat (length posts) @ lit '' posts with keywords in ''
                     @ lit [CHR 0x27] @ lit ''saved_posts.md'' @ lit [CHR 0x27] @ lit ''.'') w2))"

definition save_comments :: "config \<Rightarrow> env \<Rightarrow> nat \<Rightarrow> world \<Rightarrow> (error + unit) \<times> world" where
  "save_comments cfg env r w =
     (let comments = sort_key (\<lambda>x. date (fst (snd x))) (comment_lists w r);
          w1 = w\<lparr>comment_lists := (comment_lists w)(r := comments)\<rparr>;
          (raised, content) = write_entries (comment_entry env (cfg_keywords cfg)) comments [];
          w2 = w1\<lparr>files := (files w1)(''saved_comments.md'' \<mapsto> content)\<rparr>
      in case raised of
           Some err \<Rightarrow> (Inl err, w2)
         | None \<Rightarrow>
             (Inr (),
              print (lit ''Saved '' @ str_nat (length comments)
                     @ lit '' comments with keywords in ''
                     @ lit [CHR 0x27] @ lit ''saved_comments.md'' @ lit [CHR 0x27] @ lit ''.'')
                w2))"

section \<open>The pipeline\<close>

text \<open>
  \<^verbatim>\<open>run\<close> inside the client session: the filtered posts and the comments are new list
  objects, handed to the writers by reference; an exception ends the run.
\<close>

definition run :: "config \<Rightarrow> env \<Rightarrow> world \<Rightarrow> (error + unit) \<times> world" where
  "run cfg env w =
     (case fetch_posts cfg env w of
        (Inl err, w1) \<Rightarrow> (Inl err, w1)
      | (Inr all_posts, w1) \<Rightarrow>
          (let posts_with_keywords = filter_posts_by_keywords cfg env all_posts;
               (r1, w2) = new_post_list posts_with_keywords w1
           in case save_posts cfg env r1 w2 of
                (Inl err, w3) \<Rightarrow> (Inl err, w3)
              | (Inr u, w3) \<Rightarrow>
                  (case fetch_comments cfg env all_posts w3 of
                     (Inl err, w4) \<Rightarrow> (Inl err, w4)
                   | (Inr comments, w4) \<Rightarrow>
                       (let (r2, w5) = new_comment_list comments w4
                        in save_comments cfg env r2 w5))))"

section \<open>Reading a digest back\<close>

text \<open>
  The lines of a text, split at every newline (code point 10) as \<^verbatim>\<open>str.split('\n')\<close>
  does.
\<close>

fun lines_of :: "str \<Rightarrow> str list" where
  "lines_of [] = [[]]"
| "lines_of (c # cs) =
     (if c = 10 then [] # lines_of cs
      else (case lines_of cs of [] \<Rightarrow> [[c]] | l # ls \<Rightarrow> (c # l) # ls))"

section \<open>Reading the pieces of a substitution\<close>

text \<open>
  The stretch of the original text a piece stands for, and the places of the matches in
  the text: a match that starts at offset \<open>b\<close> and ends before offset \<open>e\<close> is the span
  \<open>(b, e)\<close>.
\<close>

fun plain :: "piece \<Rightarrow> str" where
  "plain (Lit c) = [c]"
| "plain (Match g) = g"

fun spans :: "nat \<Rightarrow> piece list \<Rightarrow> (nat \<times> nat) list" where
  "spans pos [] = []"
| "spans pos (Lit c # ps) = spans (Suc pos) ps"
| "spans pos (Match g # ps) = (pos, pos + length g) # spans (pos + length g) ps"

section \<open>What the comment fetcher collects\<close>

text \<open>
  Two summaries of one pass of the loop of \<^verbatim>\<open>fetch_comments\<close>, used to state what the
  whole loop returns: the comments one post contributes (every reply its stream yields,
  also those yielded before an exception), and the line printed for it.
\<close>

definition delivered :: "env \<Rightarrow> post_item \<Rightarrow> comment_item list" where
  "delivered env item =
     (case item of (entity, post, group_username) \<Rightarrow>
        if replies post = None then []
        else map (\<lambda>reply. (entity, reply, group_username, post))
               (fst (iter_messages env entity (Some (msg_id post)))))"

definition skip_report :: "env \<Rightarrow> post_item \<Rightarrow> str list" where
  "skip_report env item =
     (case item of (entity, post, group_username) \<Rightarrow>
        if replies post = None then []
        else (case snd (iter_messages env entity (Some (msg_id post))) of
                Some (MsgIdInvalidError e) \<Rightarrow>
                  [lit ''Skipping post '' @ str_int (msg_id post) @ lit '' from group ''
                   @ group_username @ lit '' due to error: '' @ e]
              | _ \<Rightarrow> []))"

section \<open>Example data\<close>

text \<open>
  One group \<open>a\<close>, the keyword \<open>urgent\<close>, and a handful of messages, used to run the
  definitions on concrete inputs. The case mappings of the example are a part of those of
  Unicode, the capital letters of Basic Latin (65 to 90), Latin-1 (192 to 222, the
  multiplication sign 215 apart), Greek (913 to 937) and Cyrillic (1024 to 1071, and the
  even code points from 1162 to 1214): every other code point is left as it is. The
  theorems do not depend on them.
\<close>

definition ex_lower :: "codepoint \<Rightarrow> codepoint" where
  "ex_lower c =
     (if (65 \<le> c \<and> c \<le> 90) \<or> (192 \<le> c \<and> c \<le> 222 \<and> c \<noteq> 215)
         \<or> (913 \<le> c \<and> c \<le> 937 \<and> c \<noteq> 930) \<or> (1040 \<le> c \<and> c \<le> 1071)
      then c + 32
      else if 1024 \<le> c \<and> c \<le> 1039 then c + 80
      else if 1162 \<le> c \<and> c \<le> 1214 \<and> even c then c + 1
      else c)"

definition ex_cfg :: config where
  "ex_cfg = \<lparr>api_id = 0, api_hash = [], groups = [lit ''a''], cfg_keywords = [lit ''urgent''],
             time_filter = 0\<rparr>"


definition ex_chan :: entity where
  "ex_chan = Channel 7 (Some (lit ''chan''))"

text \<open>
  The remote side of the example: the group \<open>a\<close> resolves to a public channel whose
  stream holds, newest first, a reply, three top-level messages of today and one message
  of yesterday; post 1 has one comment. Instants count from 1970, the wall clock from
  year 1 and three hours ahead of UTC. The stand-in for \<open>strftime\<close> is good for whole
  hours from 10:00 on that one day.
\<close>

definition ex_day :: int where
  "ex_day = 18838 * day_us"

definition ex_post1 :: message where
  "ex_post1 = \<lparr>msg_id = 1, msg_text = Some (lit ''Urgent issue''), date = ex_day + 7 * hour_us,
                reply_to_msg_id = None, replies = Some 1\<rparr>"

definition ex_post2 :: message where
  "ex_post2 = \<lparr>msg_id = 2, msg_text = Some (lit ''Lunch?''), date = ex_day + 8 * hour_us,
                reply_to_msg_id = None, replies = None\<rparr>"

definition ex_post3 :: message where
  "ex_post3 = \<lparr>msg_id = 3, msg_text = Some (lit ''Minutes attached''),
                date = ex_day + 9 * hour_us, reply_to_msg_id = None, replies = Some 0\<rparr>"

definition ex_reply :: message where
  "ex_reply = \<lparr>msg_id = 4, msg_text = Some (lit ''urgent fix''), date = ex_day + 10 * hour_us,
                reply_to_msg_id = Some 1, replies = None\<rparr>"

definition ex_old :: message where
  "ex_old = \<lparr>msg_id = 0, msg_text = Some (lit ''urgent, yesterday''),
              date = ex_day - 5 * hour_us, reply_to_msg_id = None, replies = None\<rparr>"

definition ex_env :: env where
  "ex_env =
     \<lparr>get_entity = (\<lambda>g. if g = lit ''a'' then Inr ex_chan
                          else Inl (lit ''No user has this username'')),
      iter_messages = (\<lambda>entity reply_to.
         case reply_to of
           None \<Rightarrow> ([ex_reply, ex_post3, ex_post2, ex_post1, ex_old], None)
         | Some i \<Rightarrow> (if i = 1 then [ex_reply] else [], None)),
      now = 738000 * day_us + 15 * hour_us,
      astimezone = (\<lambda>t. t + 719162 * day_us + 3 * hour_us),
      strftime = (\<lambda>t. lit ''2021-07-30 '' @ str_nat (nat (t mod day_us div hour_us))
                       @ lit '':00:00''),
      str_lower = map ex_lower,
      ignorecase = (\<lambda>p c. ex_lower p = ex_lower c)\<rparr>"

definition ex_world :: world where
  "ex_world = \<lparr>console = [], files = (\<lambda>name. None), post_lists = (\<lambda>r. []),
               comment_lists = (\<lambda>r. []), fresh = 0\<rparr>"

text \<open>
  A second remote side: the comment stream of post 1 yields one reply and then raises
  \<^verbatim>\<open>MsgIdInvalidError\<close>; post 3 has one comment.
\<close>

definition ex_comment3 :: message where
  "ex_comment3 = \<lparr>msg_id = 5, msg_text = Some (lit ''URGENT: see the minutes''),
                   date = ex_day + 11 * hour_us, reply_to_msg_id = Some 3, replies = None\<rparr>"

definition ex_env_invalid :: env where
  "ex_env_invalid =
     ex_env\<lparr>iter_messages := (\<lambda>entity reply_to.
        if reply_to = Some 1
        then ([ex_reply], Some (MsgIdInvalidError (lit ''MSG_ID_INVALID'')))
        else if reply_to = Some 3 then ([ex_comment3], None)
        else ([], None))\<rparr>"

section \<open>Properties of the keyword filter\<close>

lemma filter_posts_loop_eq:
  "filter_posts_loop env kws posts acc =
     acc @ filter (\<lambda>(e, p, g). has_keyword env kws p) posts"
  by (induction env kws posts acc rule: filter_posts_loop.induct) auto

lemma filter_comments_loop_eq:
  "filter_comments_loop env kws cs acc =
     acc @ filter (\<lambda>(e, r, g, p). has_keyword env kws r) cs"
  by (induction env kws cs acc rule: filter_comments_loop.induct) auto






section \<open>Properties of the time-window resolver\<close>

text \<open>
  C5, as stated, fails at the window 0: at 15:00 the window of one hour gives 14:00, the
  window 0 gives midnight, and 14:00 is not before midnight although \<open>1 \<ge> 0\<close>.
\<close>

theorem time_filter_monotone_counterexample:
  "get_time_filter (ex_cfg\<lparr>time_filter := 1\<rparr>) (738000 * day_us + 15 * hour_us)
     = Inr (738000 * day_us + 14 * hour_us)
   \<and> get_time_filter (ex_cfg\<lparr>time_filter := 0\<rparr>) (738000 * day_us + 15 * hour_us)
     = Inr (738000 * day_us)
   \<and> (0::int) \<le> 1
   \<and> \<not> (738000 * day_us + 14 * hour_us \<le> 738000 * day_us)"
  by (simp add: get_time_filter_def ex_cfg_def day_us_def hour_us_def max_us_def)

text \<open>
  C5, amended. With the window 0 the threshold is the local midnight of the current date:
  the start of the day that contains the reading \<open>wall\<close> of the clock. With a window of \<open>H > 0\<close> hours the threshold
  is \<open>wall\<close> minus \<open>H\<close> hours as long as that is a representable datetime, and
  \<^verbatim>\<open>OverflowError\<close> is raised otherwise. Among positive windows the threshold is monotone:
  a larger window gives an earlier or equal threshold. The window 0 is outside this
  order.
\<close>

theorem get_time_filter_threshold:
  "(time_filter cfg = 0 \<longrightarrow>
      (\<exists>t. get_time_filter cfg wall = Inr t \<and> t mod day_us = 0 \<and> t \<le> wall \<and> wall < t + day_us))
   \<and> (0 < time_filter cfg \<and> wall < max_us \<longrightarrow>
        get_time_filter cfg wall =
          (if 0 \<le> wall - time_filter cfg * hour_us then Inr (wall - time_filter cfg * hour_us)
           else Inl OverflowError))
   \<and> (0 < time_filter cfg2 \<and> time_filter cfg2 \<le> time_filter cfg1 \<and> wall < max_us
        \<and> get_time_filter cfg1 wall = Inr t1 \<longrightarrow>
        (\<exists>t2. get_time_filter cfg2 wall = Inr t2 \<and> t1 \<le> t2))"
proof (intro conjI impI)
  assume "time_filter cfg = 0"
  then have e1: "get_time_filter cfg wall = Inr (wall - wall mod day_us)"
    by (simp add: get_time_filter_def)
  have pos: "0 < day_us"
    by (simp add: day_us_def hour_us_def)
  have e2: "(wall - wall mod day_us) mod day_us = 0"
    by (metis minus_mod_eq_mult_div mod_mult_self1_is_0)
  from pos have e3: "wall - wall mod day_us \<le> wall"
    by simp
  have e4: "wall < wall - wall mod day_us + day_us"
    using pos_mod_bound [OF pos, of wall] by linarith
  show "\<exists>t. get_time_filter cfg wall = Inr t \<and> t mod day_us = 0 \<and> t \<le> wall
      \<and> wall < t + day_us"
    by (rule exI [where x = "wall - wall mod day_us"]) (intro conjI e1 e2 e3 e4)
next
  assume h: "0 < time_filter cfg \<and> wall < max_us"
  have "0 < hour_us"
    by (simp add: hour_us_def)
  with h have "0 < time_filter cfg * hour_us"
    by simp
  with h show "get_time_filter cfg wall =
      (if 0 \<le> wall - time_filter cfg * hour_us then Inr (wall - time_filter cfg * hour_us)
       else Inl OverflowError)"
    by (simp add: get_time_filter_def Let_def)
next
  assume h: "0 < time_filter cfg2 \<and> time_filter cfg2 \<le> time_filter cfg1 \<and> wall < max_us
      \<and> get_time_filter cfg1 wall = Inr t1"
  then have H2: "0 < time_filter cfg2" and H12: "time_filter cfg2 \<le> time_filter cfg1"
    and w: "wall < max_us" and g1: "get_time_filter cfg1 wall = Inr t1"
    by simp_all
  have pos: "0 < hour_us"
    by (simp add: hour_us_def)
  from H2 H12 have "time_filter cfg1 \<noteq> 0"
    by simp
  with g1 have t1: "t1 = wall - time_filter cfg1 * hour_us" and t1_pos: "0 \<le> t1"
    by (auto simp: get_time_filter_def Let_def split: if_splits)
  from H12 pos have le: "time_filter cfg2 * hour_us \<le> time_filter cfg1 * hour_us"
    by simp
  from H2 pos have pos2: "0 < time_filter cfg2 * hour_us"
    by simp
  from t1 t1_pos le have lo: "0 \<le> wall - time_filter cfg2 * hour_us"
    by linarith
  from pos2 w have hi: "wall - time_filter cfg2 * hour_us < max_us"
    by linarith
  from H2 lo hi have "get_time_filter cfg2 wall = Inr (wall - time_filter cfg2 * hour_us)"
    by (simp add: get_time_filter_def Let_def)
  moreover from t1 le have "t1 \<le> wall - time_filter cfg2 * hour_us"
    by linarith
  ultimately show "\<exists>t2. get_time_filter cfg2 wall = Inr t2 \<and> t1 \<le> t2"
    by (intro exI [where x = "wall - time_filter cfg2 * hour_us"] conjI)
qed

theorem get_time_filter_threshold_witness:
  "get_time_filter (ex_cfg\<lparr>time_filter := 0\<rparr>) (738000 * day_us + 15 * hour_us)
     = Inr (738000 * day_us)
   \<and> get_time_filter (ex_cfg\<lparr>time_filter := 3\<rparr>) (738000 * day_us + 15 * hour_us)
     = Inr (738000 * day_us + 12 * hour_us)
   \<and> get_time_filter (ex_cfg\<lparr>time_filter := 1\<rparr>) (738000 * day_us + 15 * hour_us)
     = Inr (738000 * day_us + 14 * hour_us)
   \<and> 738000 * day_us + 12 * hour_us \<le> 738000 * day_us + 14 * hour_us"
proof -
  let ?wall = "738000 * day_us + 15 * hour_us"
  let ?c1 = "ex_cfg\<lparr>time_filter := 1\<rparr>" and ?c3 = "ex_cfg\<lparr>time_filter := 3\<rparr>"
  have r0: "get_time_filter (ex_cfg\<lparr>time_filter := 0\<rparr>) ?wall = Inr (738000 * day_us)"
    by (simp add: get_time_filter_def day_us_def hour_us_def)
  have r1: "get_time_filter ?c1 ?wall = Inr (738000 * day_us + 14 * hour_us)"
    by (simp add: get_time_filter_def day_us_def hour_us_def max_us_def)
  have r3: "get_time_filter ?c3 ?wall = Inr (738000 * day_us + 12 * hour_us)"
    by (simp add: get_time_filter_def day_us_def hour_us_def max_us_def)
  have small: "?wall < max_us"
    by (simp add: day_us_def hour_us_def max_us_def)
  have ante: "0 < time_filter ?c1 \<and> time_filter ?c1 \<le> time_filter ?c3 \<and> ?wall < max_us
      \<and> get_time_filter ?c3 ?wall = Inr (738000 * day_us + 12 * hour_us)"
    using r3 small by simp
  from get_time_filter_threshold [of ?c3 ?wall ?c1 ?c3 "738000 * day_us + 12 * hour_us"]
  have imp: "0 < time_filter ?c1 \<and> time_filter ?c1 \<le> time_filter ?c3 \<and> ?wall < max_us
      \<and> get_time_filter ?c3 ?wall = Inr (738000 * day_us + 12 * hour_us)
      \<longrightarrow> (\<exists>t2. get_time_filter ?c1 ?wall = Inr t2 \<and> 738000 * day_us + 12 * hour_us \<le> t2)"
    by (rule conjunct2 [THEN conjunct2])
  from imp [THEN mp, OF ante] obtain t2 where "get_time_filter ?c1 ?wall = Inr t2"
    and "738000 * day_us + 12 * hour_us \<le> t2"
    by (elim exE conjE)
  with r1 have "738000 * day_us + 12 * hour_us \<le> 738000 * day_us + 14 * hour_us"
    by simp
  with r0 r1 r3 show ?thesis
    by (intro conjI)
qed

section \<open>Properties of the digest entries\<close>

lemma lines_of_nonempty: "lines_of s \<noteq> []"
  by (induction s) (auto split: list.splits)

lemma lines_of_append: "lines_of (a @ 10 # b) = lines_of a @ lines_of b"
proof (induction a)
  case Nil
  show ?case by simp
next
  case (Cons c a)
  obtain l ls where "lines_of a = l # ls"
    using lines_of_nonempty [of a] by (cases "lines_of a") auto
  with Cons show ?case by simp
qed

lemma lines_of_single: "10 \<notin> set a \<Longrightarrow> lines_of a = [a]"
  by (induction a) auto

lemma lines_of_joined:
  "lines_of (foldr (\<lambda>l acc. l @ 10 # acc) ls a) = concat (map lines_of ls) @ lines_of a"
  by (induction ls) (simp_all add: lines_of_append)

lemma entry_lines:
  assumes "10 \<notin> set l1" and "10 \<notin> set l2" and "10 \<notin> set l4"
    and "10 \<notin> set l8"
  shows "lines_of (l1 @ lit ''\<newline>'' @ l2 @ lit ''\<newline>\<newline>'' @ l4 @ lit ''\<newline>\<newline>'' @ body @ lit ''\<newline>\<newline>''
            @ l8 @ lit ''\<newline>\<newline>'' @ lit ''---\<newline>\<newline>'')
         = [l1, l2, [], l4, []] @ lines_of body @ [[], l8, [], lit ''---'', [], []]"
proof -
  have "l1 @ lit ''\<newline>'' @ l2 @ lit ''\<newline>\<newline>'' @ l4 @ lit ''\<newline>\<newline>'' @ body @ lit ''\<newline>\<newline>''
            @ l8 @ lit ''\<newline>\<newline>'' @ lit ''---\<newline>\<newline>''
        = foldr (\<lambda>l acc. l @ 10 # acc) [l1, l2, [], l4, [], body, [], l8, [], lit ''---'', []] []"
    by (simp add: lit_def)
  then show ?thesis
    using assms by (simp only: lines_of_joined) (simp add: lines_of_single lit_def)
qed

lemma write_entries_eq:
  "write_entries entry items f =
     (map_option (projl \<circ> entry) (find (\<lambda>i. isl (entry i)) items),
      f @ concat (map (projr \<circ> entry) (takeWhile (\<lambda>i. \<not> isl (entry i)) items)))"
  by (induction items arbitrary: f) (auto split: sum.splits)

text \<open>
  C9. An entity exposes a public username exactly if it is a channel whose username is
  present and not empty. Then the link of a post is \<^verbatim>\<open>https://t.me/<username>/<post-id>\<close>
  and the link of a comment is the same followed by \<^verbatim>\<open>?comment=<comment-id>\<close>; otherwise
  both are the placeholder \<^verbatim>\<open>No public link\<close>. The link computed this way is the one
  inside the brackets of the entry's link line.
\<close>

theorem digest_link:
  "(public_username entity = Some u \<longleftrightarrow> (\<exists>i. entity = Channel i (Some u)) \<and> u \<noteq> [])
   \<and> (public_username entity = Some u \<longrightarrow>
        post_link entity post = lit ''https://t.me/'' @ u @ lit ''/'' @ str_int (msg_id post)
        \<and> comment_link entity post comment
            = lit ''https://t.me/'' @ u @ lit ''/'' @ str_int (msg_id post)
              @ lit ''?comment='' @ str_int (msg_id comment))
   \<and> (public_username entity = None \<longrightarrow>
        post_link entity post = lit ''No public link''
        \<and> comment_link entity post comment = lit ''No public link'')
   \<and> (post_entry env kws (entity, post, group_username) = Inr s \<longrightarrow>
        sublist (lit ''[Post Link]('' @ post_link entity post @ lit '')\<newline>'') s)
   \<and> (comment_entry env kws (entity, comment, group_username, post) = Inr s' \<longrightarrow>
        sublist (lit ''[Comment Link]('' @ comment_link entity post comment @ lit '')\<newline>'') s')"
proof (intro conjI impI)
  show "public_username entity = Some u \<longleftrightarrow> (\<exists>i. entity = Channel i (Some u)) \<and> u \<noteq> []"
    by (cases entity rule: public_username.cases) auto
next
  assume a: "post_entry env kws (entity, post, group_username) = Inr s"
  then obtain t where "msg_text post = Some t"
    by (auto simp: post_entry_def split: option.splits)
  with a have "s = (lit ''### Group: '' @ group_username @ lit ''\<newline>''
        @ lit ''**Date:** '' @ strftime env (astimezone env (date post)) @ lit '' (Kyiv)\<newline>\<newline>''
        @ lit ''**Post:**\<newline>\<newline>'' @ highlight_keywords env t kws @ lit ''\<newline>\<newline>'')
      @ (lit ''[Post Link]('' @ post_link entity post @ lit '')\<newline>'') @ lit ''\<newline>---\<newline>\<newline>''"
    by (simp add: post_entry_def lit_def)
  then show "sublist (lit ''[Post Link]('' @ post_link entity post @ lit '')\<newline>'') s"
    by (simp only: sublist_appendI)
next
  assume a: "comment_entry env kws (entity, comment, group_username, post) = Inr s'"
  then obtain t where "msg_text comment = Some t"
    by (auto simp: comment_entry_def split: option.splits)
  with a have "s' = (lit ''### Group: '' @ group_username @ lit ''\<newline>''
        @ lit ''**Comment Date:** '' @ strftime env (astimezone env (date comment))
        @ lit '' (Kyiv)\<newline>\<newline>''
        @ lit ''**Comment:**\<newline>\<newline>'' @ highlight_keywords env t kws @ lit ''\<newline>\<newline>'')
      @ (lit ''[Comment Link]('' @ comment_link entity post comment @ lit '')\<newline>'')
      @ lit ''\<newline>---\<newline>\<newline>''"
    by (simp add: comment_entry_def lit_def)
  then show "sublist (lit ''[Comment Link]('' @ comment_link entity post comment @ lit '')\<newline>'') s'"
    by (simp only: sublist_appendI)
qed (simp_all add: post_link_def comment_link_def)

theorem digest_link_witness:
  "public_username ex_chan = Some (lit ''chan'')
   \<and> post_link ex_chan ex_post1 = lit ''https://t.me/chan/1''
   \<and> comment_link ex_chan ex_post1 ex_reply = lit ''https://t.me/chan/1?comment=4''
   \<and> public_username (Chat 5) = None
   \<and> post_link (Chat 5) ex_post1 = lit ''No public link''
   \<and> comment_link (Chat 5) ex_post1 ex_reply = lit ''No public link''
   \<and> post_link (Channel 7 (Some [])) ex_post1 = lit ''No public link''
   \<and> post_link (Channel 7 None) ex_post1 = lit ''No public link''"
proof -
  have ids: "str_int (msg_id ex_post1) = lit ''1''" "str_int (msg_id ex_reply) = lit ''4''"
    by (simp_all add: ex_post1_def ex_reply_def str_int_def str_nat.simps lit_def)
  have names: "public_username ex_chan = Some (lit ''chan'')" "public_username (Chat 5) = None"
    "public_username (Channel 7 (Some [])) = None" "public_username (Channel 7 None) = None"
    by (simp_all add: ex_chan_def lit_def)
  from names ids
    digest_link [where entity = ex_chan and u = "lit ''chan''" and post = ex_post1 and comment = ex_reply]
    digest_link [where entity = "Chat 5" and post = ex_post1 and comment = ex_reply]
    digest_link [where entity = "Channel 7 (Some [])" and post = ex_post1 and comment = ex_reply]
    digest_link [where entity = "Channel 7 None" and post = ex_post1 and comment = ex_reply]
  show ?thesis
    by (simp add: lit_def)
qed

lemma save_posts_file:
  "files (snd (save_posts cfg env r w)) =
     (files w)(''saved_posts.md'' \<mapsto>
        concat (map (projr \<circ> post_entry env (cfg_keywords cfg))
          (takeWhile (\<lambda>i. \<not> isl (post_entry env (cfg_keywords cfg) i))
             (sort_key (\<lambda>x. date (fst (snd x))) (post_lists w r)))))"
  by (simp add: save_posts_def write_entries_eq Let_def print_def split: option.splits)

lemma save_comments_file:
  "files (snd (save_comments cfg env r w)) =
     (files w)(''saved_comments.md'' \<mapsto>
        concat (map (projr \<circ> comment_entry env (cfg_keywords cfg))
          (takeWhile (\<lambda>i. \<not> isl (comment_entry env (cfg_keywords cfg) i))
             (sort_key (\<lambda>x. date (fst (snd x))) (comment_lists w r)))))"
  by (simp add: save_comments_def write_entries_eq Let_def print_def split: option.splits)

text \<open>
  C8, as stated, fails for the comments digest: the second line of a comment entry
  starts with \<^verbatim>\<open>**Comment Date:**\<close> and its link line is \<^verbatim>\<open>[Comment Link](...)\<close>.
\<close>

theorem comment_entry_grammar_counterexample:
  "lines_of (projr (comment_entry ex_env [lit ''urgent''] (ex_chan, ex_reply, lit ''a'', ex_post1))) ! 1
     = lit ''**Comment Date:** 2021-07-30 13:00:00 (Kyiv)''
   \<and> \<not> prefix (lit ''**Date:**'') (lit ''**Comment Date:** 2021-07-30 13:00:00 (Kyiv)'')
   \<and> rev (lines_of (projr (comment_entry ex_env [lit ''urgent''] (ex_chan, ex_reply, lit ''a'', ex_post1)))) ! 4
     = lit ''[Comment Link](https://t.me/chan/1?comment=4)''
   \<and> \<not> prefix (lit ''[Post Link]('') (lit ''[Comment Link](https://t.me/chan/1?comment=4)'')"
  by code_simp

text \<open>
  C8, amended. Each digest file is the concatenation of the entries of the items
  written. Where the group label, the formatted timestamp and the link hold no newline,
  a post entry reads, line by line: the group line, \<^verbatim>\<open>**Date:** <timestamp> (Kyiv)\<close>, a
  blank line, \<^verbatim>\<open>**Post:**\<close>, a blank line, the highlighted body, a blank line,
  \<^verbatim>\<open>[Post Link](<url-or-placeholder>)\<close>, a blank line, the rule and a blank line. A
  comment entry has the same shape with the labels \<^verbatim>\<open>**Comment Date:**\<close>,
  \<^verbatim>\<open>**Comment:**\<close> and \<^verbatim>\<open>[Comment Link](...)\<close>.
\<close>

theorem digest_entry_grammar:
  "(msg_text post = Some t \<and> 10 \<notin> set group_username
      \<and> 10 \<notin> set (strftime env (astimezone env (date post)))
      \<and> 10 \<notin> set (post_link entity post) \<longrightarrow>
      (\<exists>s. post_entry env kws (entity, post, group_username) = Inr s
         \<and> lines_of s =
             [lit ''### Group: '' @ group_username,
              lit ''**Date:** '' @ strftime env (astimezone env (date post)) @ lit '' (Kyiv)'',
              [], lit ''**Post:**'', []]
             @ lines_of (highlight_keywords env t kws)
             @ [[], lit ''[Post Link]('' @ post_link entity post @ lit '')'', [], lit ''---'', [], []]))
   \<and> (msg_text comment = Some t' \<and> 10 \<notin> set group_username'
      \<and> 10 \<notin> set (strftime env (astimezone env (date comment)))
      \<and> 10 \<notin> set (comment_link entity' parent comment) \<longrightarrow>
      (\<exists>s. comment_entry env kws (entity', comment, group_username', parent) = Inr s
         \<and> lines_of s =
             [lit ''### Group: '' @ group_username',
              lit ''**Comment Date:** '' @ strftime env (astimezone env (date comment)) @ lit '' (Kyiv)'',
              [], lit ''**Comment:**'', []]
             @ lines_of (highlight_keywords env t' kws)
             @ [[], lit ''[Comment Link]('' @ comment_link entity' parent comment @ lit '')'', [], lit ''---'',
                [], []]))
   \<and> files (snd (save_posts cfg env r w)) ''saved_posts.md'' =
       Some (concat (map (projr \<circ> post_entry env (cfg_keywords cfg))
         (takeWhile (\<lambda>i. \<not> isl (post_entry env (cfg_keywords cfg) i))
            (sort_key (\<lambda>x. date (fst (snd x))) (post_lists w r)))))
   \<and> files (snd (save_comments cfg env r' w')) ''saved_comments.md'' =
       Some (concat (map (projr \<circ> comment_entry env (cfg_keywords cfg))
         (takeWhile (\<lambda>i. \<not> isl (comment_entry env (cfg_keywords cfg) i))
            (sort_key (\<lambda>x. date (fst (snd x))) (comment_lists w' r')))))"
proof (intro conjI impI)
  assume h: "msg_text post = Some t \<and> 10 \<notin> set group_username
      \<and> 10 \<notin> set (strftime env (astimezone env (date post)))
      \<and> 10 \<notin> set (post_link entity post)"
  let ?s = "(lit ''### Group: '' @ group_username) @ lit ''\<newline>''
      @ (lit ''**Date:** '' @ strftime env (astimezone env (date post)) @ lit '' (Kyiv)'') @ lit ''\<newline>\<newline>''
      @ lit ''**Post:**'' @ lit ''\<newline>\<newline>'' @ highlight_keywords env t kws @ lit ''\<newline>\<newline>''
      @ (lit ''[Post Link]('' @ post_link entity post @ lit '')'') @ lit ''\<newline>\<newline>'' @ lit ''---\<newline>\<newline>''"
  from h have e: "post_entry env kws (entity, post, group_username) = Inr ?s"
    by (simp add: post_entry_def lit_def)
  from h have l: "lines_of ?s =
      [lit ''### Group: '' @ group_username,
       lit ''**Date:** '' @ strftime env (astimezone env (date post)) @ lit '' (Kyiv)'',
       [], lit ''**Post:**'', []]
      @ lines_of (highlight_keywords env t kws)
      @ [[], lit ''[Post Link]('' @ post_link entity post @ lit '')'', [], lit ''---'', [], []]"
    by (intro entry_lines) (simp_all add: lit_def)
  from e l show "\<exists>s. post_entry env kws (entity, post, group_username) = Inr s
      \<and> lines_of s =
          [lit ''### Group: '' @ group_username,
           lit ''**Date:** '' @ strftime env (astimezone env (date post)) @ lit '' (Kyiv)'',
           [], lit ''**Post:**'', []]
          @ lines_of (highlight_keywords env t kws)
          @ [[], lit ''[Post Link]('' @ post_link entity post @ lit '')'', [], lit ''---'', [], []]"
    by (intro exI [where x = ?s] conjI)
next
  assume h: "msg_text comment = Some t' \<and> 10 \<notin> set group_username'
      \<and> 10 \<notin> set (strftime env (astimezone env (date comment)))
      \<and> 10 \<notin> set (comment_link entity' parent comment)"
  let ?s = "(lit ''### Group: '' @ group_username') @ lit ''\<newline>''
      @ (lit ''**Comment Date:** '' @ strftime env (astimezone env (date comment)) @ lit '' (Kyiv)'')
      @ lit ''\<newline>\<newline>''
      @ lit ''**Comment:**'' @ lit ''\<newline>\<newline>'' @ highlight_keywords env t' kws @ lit ''\<newline>\<newline>''
      @ (lit ''[Comment Link]('' @ comment_link entity' parent comment @ lit '')'') @ lit ''\<newline>\<newline>''
      @ lit ''---\<newline>\<newline>''"
  from h have e: "comment_entry env kws (entity', comment, group_username', parent) = Inr ?s"
    by (simp add: comment_entry_def lit_def)
  from h have l: "lines_of ?s =
      [lit ''### Group: '' @ group_username',
       lit ''**Comment Date:** '' @ strftime env (astimezone env (date comment)) @ lit '' (Kyiv)'',
       [], lit ''**Comment:**'', []]
      @ lines_of (highlight_keywords env t' kws)
      @ [[], lit ''[Comment Link]('' @ comment_link entity' parent comment @ lit '')'', [], lit ''---'',
         [], []]"
    by (intro entry_lines) (simp_all add: lit_def)
  from e l show "\<exists>s. comment_entry env kws (entity', comment, group_username', parent) = Inr s
      \<and> lines_of s =
          [lit ''### Group: '' @ group_username',
           lit ''**Comment Date:** '' @ strftime env (astimezone env (date comment)) @ lit '' (Kyiv)'',
           [], lit ''**Comment:**'', []]
          @ lines_of (highlight_keywords env t' kws)
          @ [[], lit ''[Comment Link]('' @ comment_link entity' parent comment @ lit '')'', [], lit ''---'',
             [], []]"
    by (intro exI [where x = ?s] conjI)
qed (simp_all add: save_posts_file save_comments_file)

theorem digest_entry_grammar_witness:
  "(\<exists>s. post_entry ex_env [lit ''urgent''] (ex_chan, ex_post1, lit ''a'') = Inr s
      \<and> lines_of s ! 1 = lit ''**Date:** 2021-07-30 10:00:00 (Kyiv)''
      \<and> rev (lines_of s) ! 4 = lit ''[Post Link](https://t.me/chan/1)'')
   \<and> (\<exists>s. comment_entry ex_env [lit ''urgent''] (ex_chan, ex_reply, lit ''a'', ex_post1) = Inr s
      \<and> lines_of s ! 1 = lit ''**Comment Date:** 2021-07-30 13:00:00 (Kyiv)''
      \<and> rev (lines_of s) ! 4 = lit ''[Comment Link](https://t.me/chan/1?comment=4)'')"
proof -
  have stamp1: "strftime ex_env (astimezone ex_env (date ex_post1)) = lit ''2021-07-30 10:00:00''"
    by code_simp
  have stamp2: "strftime ex_env (astimezone ex_env (date ex_reply)) = lit ''2021-07-30 13:00:00''"
    by code_simp
  have link1: "post_link ex_chan ex_post1 = lit ''https://t.me/chan/1''"
    by code_simp
  have link2: "comment_link ex_chan ex_post1 ex_reply = lit ''https://t.me/chan/1?comment=4''"
    by code_simp
  have h1: "msg_text ex_post1 = Some (lit ''Urgent issue'') \<and> 10 \<notin> set (lit ''a'')
      \<and> 10 \<notin> set (strftime ex_env (astimezone ex_env (date ex_post1)))
      \<and> 10 \<notin> set (post_link ex_chan ex_post1)"
    unfolding stamp1 link1 by (simp add: ex_post1_def lit_def)
  have h2: "msg_text ex_reply = Some (lit ''urgent fix'') \<and> 10 \<notin> set (lit ''a'')
      \<and> 10 \<notin> set (strftime ex_env (astimezone ex_env (date ex_reply)))
      \<and> 10 \<notin> set (comment_link ex_chan ex_post1 ex_reply)"
    unfolding stamp2 link2 by (simp add: ex_reply_def lit_def)
  note G = digest_entry_grammar [where env = ex_env and kws = "[lit ''urgent'']"
      and entity = ex_chan and post = ex_post1 and group_username = "lit ''a''"
      and t = "lit ''Urgent issue''" and entity' = ex_chan and comment = ex_reply
      and group_username' = "lit ''a''" and parent = ex_post1 and t' = "lit ''urgent fix''"]
  from G [THEN conjunct1, THEN mp, OF h1] obtain s1 where
    e1: "post_entry ex_env [lit ''urgent''] (ex_chan, ex_post1, lit ''a'') = Inr s1" and
    l1: "lines_of s1 =
      [lit ''### Group: '' @ lit ''a'',
       lit ''**Date:** '' @ strftime ex_env (astimezone ex_env (date ex_post1)) @ lit '' (Kyiv)'',
       [], lit ''**Post:**'', []]
      @ lines_of (highlight_keywords ex_env (lit ''Urgent issue'') [lit ''urgent''])
      @ [[], lit ''[Post Link]('' @ post_link ex_chan ex_post1 @ lit '')'', [], lit ''---'', [], []]"
    by (elim exE conjE)
  from G [THEN conjunct2, THEN conjunct1, THEN mp, OF h2] obtain s2 where
    e2: "comment_entry ex_env [lit ''urgent''] (ex_chan, ex_reply, lit ''a'', ex_post1) = Inr s2" and
    l2: "lines_of s2 =
      [lit ''### Group: '' @ lit ''a'',
       lit ''**Comment Date:** '' @ strftime ex_env (astimezone ex_env (date ex_reply)) @ lit '' (Kyiv)'',
       [], lit ''**Comment:**'', []]
      @ lines_of (highlight_keywords ex_env (lit ''urgent fix'') [lit ''urgent''])
      @ [[], lit ''[Comment Link]('' @ comment_link ex_chan ex_post1 ex_reply @ lit '')'', [], lit ''---'',
         [], []]"
    by (elim exE conjE)
  have d1: "lines_of s1 ! 1 = lit ''**Date:** 2021-07-30 10:00:00 (Kyiv)''"
    unfolding l1 stamp1 by (simp add: lit_def)
  have k1: "rev (lines_of s1) ! 4 = lit ''[Post Link](https://t.me/chan/1)''"
    unfolding l1 link1 by (simp add: lit_def)
  have d2: "lines_of s2 ! 1 = lit ''**Comment Date:** 2021-07-30 13:00:00 (Kyiv)''"
    unfolding l2 stamp2 by (simp add: lit_def)
  have k2: "rev (lines_of s2) ! 4 = lit ''[Comment Link](https://t.me/chan/1?comment=4)''"
    unfolding l2 link2 by (simp add: lit_def)
  from e1 d1 k1 e2 d2 k2 show ?thesis
    by (intro conjI exI [where x = s1] exI [where x = s2])
qed

section \<open>Properties of the digest writers\<close>

lemma save_posts_lists:
  "post_lists (snd (save_posts cfg env r w)) =
     (post_lists w)(r := sort_key (\<lambda>x. date (fst (snd x))) (post_lists w r))"
  "comment_lists (snd (save_posts cfg env r w)) = comment_lists w"
  by (simp_all add: save_posts_def write_entries_eq Let_def print_def split: option.splits)

lemma save_comments_lists:
  "comment_lists (snd (save_comments cfg env r w)) =
     (comment_lists w)(r := sort_key (\<lambda>x. date (fst (snd x))) (comment_lists w r))"
  "post_lists (snd (save_comments cfg env r w)) = post_lists w"
  by (simp_all add: save_comments_def write_entries_eq Let_def print_def split: option.splits)

lemma save_posts_result:
  "fst (save_posts cfg env r w) =
     (case find (\<lambda>i. isl (post_entry env (cfg_keywords cfg) i))
             (sort_key (\<lambda>x. date (fst (snd x))) (post_lists w r)) of
        None \<Rightarrow> Inr ()
      | Some i \<Rightarrow> Inl (projl (post_entry env (cfg_keywords cfg) i)))"
  by (simp add: save_posts_def write_entries_eq Let_def split: option.splits)

lemma save_comments_result:
  "fst (save_comments cfg env r w) =
     (case find (\<lambda>i. isl (comment_entry env (cfg_keywords cfg) i))
             (sort_key (\<lambda>x. date (fst (snd x))) (comment_lists w r)) of
        None \<Rightarrow> Inr ()
      | Some i \<Rightarrow> Inl (projl (comment_entry env (cfg_keywords cfg) i)))"
  by (simp add: save_comments_def write_entries_eq Let_def split: option.splits)

lemma sort_key_twice: "sort_key f (sort_key f xs) = sort_key f xs"
  by (simp add: sort_key_id_if_sorted)

lemma takeWhile_all: "\<forall>x\<in>set xs. P x \<Longrightarrow> takeWhile P xs = xs"
  by (induction xs) auto

lemma post_entry_isl: "isl (post_entry env kws i) \<longleftrightarrow> msg_text (fst (snd i)) = None"
  by (cases i) (simp add: post_entry_def split: option.splits)

lemma comment_entry_isl: "isl (comment_entry env kws i) \<longleftrightarrow> msg_text (fst (snd i)) = None"
  by (cases i) (simp add: comment_entry_def split: option.splits)

text \<open>
  C3. The posts digest holds the entries of the items in ascending order of their dates:
  the file is the concatenation of the entries of the sorted list, up to the first item
  without text, and of the whole sorted list when every item has text. The sorted list is
  ordered by date, is a permutation of the input, and keeps items of equal date in their
  original order. Writing a second time, with the list and the files as the first call
  left them, gives the same file contents and the same outcome. The comments digest
  behaves in the same way.
\<close>

theorem digest_sorted_stable_idempotent:
  "files (snd (save_posts cfg env r w)) ''saved_posts.md'' =
     Some (concat (map (projr \<circ> post_entry env (cfg_keywords cfg))
       (takeWhile (\<lambda>i. msg_text (fst (snd i)) \<noteq> None)
          (sort_key (\<lambda>x. date (fst (snd x))) (post_lists w r)))))
   \<and> files (snd (save_comments cfg env r' w')) ''saved_comments.md'' =
     Some (concat (map (projr \<circ> comment_entry env (cfg_keywords cfg))
       (takeWhile (\<lambda>i. msg_text (fst (snd i)) \<noteq> None)
          (sort_key (\<lambda>x. date (fst (snd x))) (comment_lists w' r')))))
   \<and> ((\<forall>i\<in>set (post_lists w r). msg_text (fst (snd i)) \<noteq> None) \<longrightarrow>
        files (snd (save_posts cfg env r w)) ''saved_posts.md'' =
          Some (concat (map (projr \<circ> post_entry env (cfg_keywords cfg))
            (sort_key (\<lambda>x. date (fst (snd x))) (post_lists w r))))
        \<and> fst (save_posts cfg env r w) = Inr ())
   \<and> ((\<forall>i\<in>set (comment_lists w' r'). msg_text (fst (snd i)) \<noteq> None) \<longrightarrow>
        files (snd (save_comments cfg env r' w')) ''saved_comments.md'' =
          Some (concat (map (projr \<circ> comment_entry env (cfg_keywords cfg))
            (sort_key (\<lambda>x. date (fst (snd x))) (comment_lists w' r'))))
        \<and> fst (save_comments cfg env r' w') = Inr ())
   \<and> sorted (map (\<lambda>x. date (fst (snd x))) (sort_key (\<lambda>x. date (fst (snd x))) (post_lists w r)))
   \<and> sorted (map (\<lambda>x. date (fst (snd x)))
        (sort_key (\<lambda>x. date (fst (snd x))) (comment_lists w' r')))
   \<and> mset (sort_key (\<lambda>x. date (fst (snd x))) (post_lists w r)) = mset (post_lists w r)
   \<and> mset (sort_key (\<lambda>x. date (fst (snd x))) (comment_lists w' r')) = mset (comment_lists w' r')
   \<and> filter (\<lambda>x. date (fst (snd x)) = d) (sort_key (\<lambda>x. date (fst (snd x))) (post_lists w r))
       = filter (\<lambda>x. date (fst (snd x)) = d) (post_lists w r)
   \<and> filter (\<lambda>x. date (fst (snd x)) = d) (sort_key (\<lambda>x. date (fst (snd x))) (comment_lists w' r'))
       = filter (\<lambda>x. date (fst (snd x)) = d) (comment_lists w' r')
   \<and> files (snd (save_posts cfg env r (snd (save_posts cfg env r w))))
       = files (snd (save_posts cfg env r w))
   \<and> fst (save_posts cfg env r (snd (save_posts cfg env r w))) = fst (save_posts cfg env r w)
   \<and> files (snd (save_comments cfg env r' (snd (save_comments cfg env r' w'))))
       = files (snd (save_comments cfg env r' w'))
   \<and> fst (save_comments cfg env r' (snd (save_comments cfg env r' w')))
       = fst (save_comments cfg env r' w')"
proof (intro conjI impI)
  show "filter (\<lambda>x. date (fst (snd x)) = d) (sort_key (\<lambda>x. date (fst (snd x))) (post_lists w r))
      = filter (\<lambda>x. date (fst (snd x)) = d) (post_lists w r)"
    by (rule sort_key_stable)
  show "filter (\<lambda>x. date (fst (snd x)) = d)
        (sort_key (\<lambda>x. date (fst (snd x))) (comment_lists w' r'))
      = filter (\<lambda>x. date (fst (snd x)) = d) (comment_lists w' r')"
    by (rule sort_key_stable)
next
  assume all: "\<forall>i\<in>set (post_lists w r). msg_text (fst (snd i)) \<noteq> None"
  then have tw: "takeWhile (\<lambda>i. \<not> isl (post_entry env (cfg_keywords cfg) i))
      (sort_key (\<lambda>x. date (fst (snd x))) (post_lists w r))
      = sort_key (\<lambda>x. date (fst (snd x))) (post_lists w r)"
    by (intro takeWhile_all) (simp add: post_entry_isl)
  show "files (snd (save_posts cfg env r w)) ''saved_posts.md'' =
      Some (concat (map (projr \<circ> post_entry env (cfg_keywords cfg))
        (sort_key (\<lambda>x. date (fst (snd x))) (post_lists w r))))"
    by (simp only: save_posts_file tw fun_upd_same)
  from all have "find (\<lambda>i. isl (post_entry env (cfg_keywords cfg) i))
      (sort_key (\<lambda>x. date (fst (snd x))) (post_lists w r)) = None"
    by (fastforce simp: find_None_iff post_entry_isl)
  then show "fst (save_posts cfg env r w) = Inr ()"
    by (simp add: save_posts_result)
next
  assume all: "\<forall>i\<in>set (comment_lists w' r'). msg_text (fst (snd i)) \<noteq> None"
  then have tw: "takeWhile (\<lambda>i. \<not> isl (comment_entry env (cfg_keywords cfg) i))
      (sort_key (\<lambda>x. date (fst (snd x))) (comment_lists w' r'))
      = sort_key (\<lambda>x. date (fst (snd x))) (comment_lists w' r')"
    by (intro takeWhile_all) (simp add: comment_entry_isl)
  show "files (snd (save_comments cfg env r' w')) ''saved_comments.md'' =
      Some (concat (map (projr \<circ> comment_entry env (cfg_keywords cfg))
        (sort_key (\<lambda>x. date (fst (snd x))) (comment_lists w' r'))))"
    by (simp only: save_comments_file tw fun_upd_same)
  from all have "find (\<lambda>i. isl (comment_entry env (cfg_keywords cfg) i))
      (sort_key (\<lambda>x. date (fst (snd x))) (comment_lists w' r')) = None"
    by (fastforce simp: find_None_iff comment_entry_isl)
  then show "fst (save_comments cfg env r' w') = Inr ()"
    by (simp add: save_comments_result)
qed (simp_all add: save_posts_file save_comments_file post_entry_isl comment_entry_isl
       save_posts_lists save_comments_lists save_posts_result save_comments_result
       sort_key_twice)

theorem digest_sorted_stable_idempotent_witness:
  "fst (save_posts ex_cfg ex_env 0
          (ex_world\<lparr>post_lists := (\<lambda>r. [(ex_chan, ex_post3, lit ''a''), (ex_chan, ex_post1, lit ''a'')])\<rparr>))
     = Inr ()
   \<and> files (snd (save_posts ex_cfg ex_env 0
          (ex_world\<lparr>post_lists := (\<lambda>r. [(ex_chan, ex_post3, lit ''a''), (ex_chan, ex_post1, lit ''a'')])\<rparr>)))
        ''saved_posts.md''
     = Some (projr (post_entry ex_env [lit ''urgent''] (ex_chan, ex_post1, lit ''a''))
             @ projr (post_entry ex_env [lit ''urgent''] (ex_chan, ex_post3, lit ''a'')))
   \<and> fst (save_comments ex_cfg ex_env 0
          (ex_world\<lparr>comment_lists := (\<lambda>r. [(ex_chan, ex_reply, lit ''a'', ex_post1)])\<rparr>))
     = Inr ()
   \<and> files (snd (save_comments ex_cfg ex_env 0
          (ex_world\<lparr>comment_lists := (\<lambda>r. [(ex_chan, ex_reply, lit ''a'', ex_post1)])\<rparr>)))
        ''saved_comments.md''
     = Some (projr (comment_entry ex_env [lit ''urgent''] (ex_chan, ex_reply, lit ''a'', ex_post1)))"
proof -
  let ?w = "ex_world\<lparr>post_lists := (\<lambda>r. [(ex_chan, ex_post3, lit ''a''), (ex_chan, ex_post1, lit ''a'')])\<rparr>"
  let ?w' = "ex_world\<lparr>comment_lists := (\<lambda>r. [(ex_chan, ex_reply, lit ''a'', ex_post1)])\<rparr>"
  have h: "\<forall>i\<in>set (post_lists ?w 0). msg_text (fst (snd i)) \<noteq> None"
    by (simp add: ex_post1_def ex_post3_def)
  have h': "\<forall>i\<in>set (comment_lists ?w' 0). msg_text (fst (snd i)) \<noteq> None"
    by (simp add: ex_reply_def)
  have srt: "sort_key (\<lambda>x. date (fst (snd x))) (post_lists ?w 0)
      = [(ex_chan, ex_post1, lit ''a''), (ex_chan, ex_post3, lit ''a'')]"
    by (simp add: ex_post1_def ex_post3_def ex_day_def day_us_def hour_us_def)
  have srt': "sort_key (\<lambda>x. date (fst (snd x))) (comment_lists ?w' 0)
      = [(ex_chan, ex_reply, lit ''a'', ex_post1)]"
    by simp
  have kws: "cfg_keywords ex_cfg = [lit ''urgent'']"
    by (simp add: ex_cfg_def)
  note T = digest_sorted_stable_idempotent [where cfg = ex_cfg and env = ex_env and r = 0
      and w = ?w and r' = 0 and w' = ?w']
  from T [THEN conjunct2, THEN conjunct2, THEN conjunct1, THEN mp, OF h]
  have p: "files (snd (save_posts ex_cfg ex_env 0 ?w)) ''saved_posts.md'' =
      Some (projr (post_entry ex_env [lit ''urgent''] (ex_chan, ex_post1, lit ''a''))
            @ projr (post_entry ex_env [lit ''urgent''] (ex_chan, ex_post3, lit ''a'')))
      \<and> fst (save_posts ex_cfg ex_env 0 ?w) = Inr ()"
    unfolding srt kws by simp
  from T [THEN conjunct2, THEN conjunct2, THEN conjunct2, THEN conjunct1, THEN mp, OF h']
  have c: "files (snd (save_comments ex_cfg ex_env 0 ?w')) ''saved_comments.md'' =
      Some (projr (comment_entry ex_env [lit ''urgent''] (ex_chan, ex_reply, lit ''a'', ex_post1)))
      \<and> fst (save_comments ex_cfg ex_env 0 ?w') = Inr ()"
    unfolding srt' kws by simp
  from p c show ?thesis
    by (intro conjI) (elim conjE, assumption)+
qed

text \<open>
  C10. The writers sort the list object they are given: after the call the list stored
  under the reference is the stably sorted one, whether or not the writing raised, every
  other list is as before, and the sorted list has the same elements as the original.
\<close>

theorem digest_writers_sort_in_place:
  "post_lists (snd (save_posts cfg env r w)) r
     = sort_key (\<lambda>x. date (fst (snd x))) (post_lists w r)
   \<and> comment_lists (snd (save_comments cfg env r' w')) r'
     = sort_key (\<lambda>x. date (fst (snd x))) (comment_lists w' r')
   \<and> (q \<noteq> r \<longrightarrow> post_lists (snd (save_posts cfg env r w)) q = post_lists w q)
   \<and> (q' \<noteq> r' \<longrightarrow>
        comment_lists (snd (save_comments cfg env r' w')) q' = comment_lists w' q')
   \<and> comment_lists (snd (save_posts cfg env r w)) = comment_lists w
   \<and> post_lists (snd (save_comments cfg env r' w')) = post_lists w'
   \<and> sorted (map (\<lambda>x. date (fst (snd x))) (post_lists (snd (save_posts cfg env r w)) r))
   \<and> sorted (map (\<lambda>x. date (fst (snd x)))
        (comment_lists (snd (save_comments cfg env r' w')) r'))
   \<and> mset (post_lists (snd (save_posts cfg env r w)) r) = mset (post_lists w r)
   \<and> mset (comment_lists (snd (save_comments cfg env r' w')) r') = mset (comment_lists w' r')"
  by (simp add: save_posts_lists save_comments_lists)

theorem digest_writers_sort_in_place_witness:
  "post_lists (snd (save_posts ex_cfg ex_env 0
      (ex_world\<lparr>post_lists := (\<lambda>r. [(ex_chan, ex_post3, lit ''a''), (ex_chan, ex_post1, lit ''a'')])\<rparr>))) 0
     = [(ex_chan, ex_post1, lit ''a''), (ex_chan, ex_post3, lit ''a'')]
   \<and> post_lists (snd (save_posts ex_cfg ex_env 0
      (ex_world\<lparr>post_lists := (\<lambda>r. [(ex_chan, ex_post3, lit ''a''), (ex_chan, ex_post1, lit ''a'')])\<rparr>))) 1
     = [(ex_chan, ex_post3, lit ''a''), (ex_chan, ex_post1, lit ''a'')]
   \<and> comment_lists (snd (save_comments ex_cfg ex_env 0
      (ex_world\<lparr>comment_lists :=
         (\<lambda>r. [(ex_chan, ex_reply, lit ''a'', ex_post1), (ex_chan, ex_post2, lit ''a'', ex_post1)])\<rparr>))) 0
     = [(ex_chan, ex_post2, lit ''a'', ex_post1), (ex_chan, ex_reply, lit ''a'', ex_post1)]
   \<and> comment_lists (snd (save_comments ex_cfg ex_env 0
      (ex_world\<lparr>comment_lists :=
         (\<lambda>r. [(ex_chan, ex_reply, lit ''a'', ex_post1), (ex_chan, ex_post2, lit ''a'', ex_post1)])\<rparr>))) 1
     = [(ex_chan, ex_reply, lit ''a'', ex_post1), (ex_chan, ex_post2, lit ''a'', ex_post1)]"
proof -
  let ?w = "ex_world\<lparr>post_lists := (\<lambda>r. [(ex_chan, ex_post3, lit ''a''), (ex_chan, ex_post1, lit ''a'')])\<rparr>"
  let ?w' = "ex_world\<lparr>comment_lists :=
      (\<lambda>r. [(ex_chan, ex_reply, lit ''a'', ex_post1), (ex_chan, ex_post2, lit ''a'', ex_post1)])\<rparr>"
  have srt: "sort_key (\<lambda>x. date (fst (snd x))) (post_lists ?w 0)
      = [(ex_chan, ex_post1, lit ''a''), (ex_chan, ex_post3, lit ''a'')]"
    by (simp add: ex_post1_def ex_post3_def ex_day_def day_us_def hour_us_def)
  have srt': "sort_key (\<lambda>x. date (fst (snd x))) (comment_lists ?w' 0)
      = [(ex_chan, ex_post2, lit ''a'', ex_post1), (ex_chan, ex_reply, lit ''a'', ex_post1)]"
    by (simp add: ex_post2_def ex_reply_def ex_day_def day_us_def hour_us_def)
  have ne: "(1::nat) \<noteq> 0"
    by simp
  note T = digest_writers_sort_in_place [where cfg = ex_cfg and env = ex_env and r = 0
      and w = ?w and r' = 0 and w' = ?w' and q = 1 and q' = 1]
  from T [THEN conjunct1] srt
    T [THEN conjunct2, THEN conjunct1] srt'
    T [THEN conjunct2, THEN conjunct2, THEN conjunct1, THEN mp, OF ne]
    T [THEN conjunct2, THEN conjunct2, THEN conjunct2, THEN conjunct1, THEN mp, OF ne]
  show ?thesis
    by simp
qed

section \<open>Properties of the post fetcher\<close>

lemma scan_messages_top_level:
  "scan_messages tz thr entity g msgs fin posts = Inr posts' \<Longrightarrow>
     \<forall>i\<in>set posts. reply_to_msg_id (fst (snd i)) = None \<Longrightarrow>
     \<forall>i\<in>set posts'. reply_to_msg_id (fst (snd i)) = None"
proof (induction tz thr entity g msgs fin posts rule: scan_messages.induct)
  case (3 tz thr entity g msg rest fin posts)
  show ?case
  proof (cases "tz (date msg) < thr")
    case True
    with "3.prems" show ?thesis by simp
  next
    case old: False
    show ?thesis
    proof (cases "reply_to_msg_id msg = None")
      case True
      with old "3.prems" "3.IH"(1) [of "tz (date msg)"] show ?thesis
        by simp
    next
      case False
      with old "3.prems" "3.IH"(2) [of "tz (date msg)"] show ?thesis
        by simp
    qed
  qed
qed simp_all

lemma fetch_groups_top_level:
  "fetch_groups env thr gs posts w = (Inr posts', w') \<Longrightarrow>
     \<forall>i\<in>set posts. reply_to_msg_id (fst (snd i)) = None \<Longrightarrow>
     \<forall>i\<in>set posts'. reply_to_msg_id (fst (snd i)) = None"
proof (induction env thr gs posts w rule: fetch_groups.induct)
  case (1 env thr posts w)
  then show ?case by simp
next
  case (2 env thr g gs posts w)
  show ?case
  proof (cases "get_entity env g")
    case (Inl e)
    with "2.prems" "2.IH"(1) [of e] show ?thesis
      by simp
  next
    case (Inr entity)
    obtain msgs fin where it: "iter_messages env entity None = (msgs, fin)"
      by (cases "iter_messages env entity None")
    show ?thesis
    proof (cases "scan_messages (astimezone env) thr entity g msgs fin posts")
      case (Inl err)
      with Inr it "2.prems" show ?thesis
        by simp
    next
      case scanned: (Inr ps)
      from scanned "2.prems"(2) have top: "\<forall>i\<in>set ps. reply_to_msg_id (fst (snd i)) = None"
        by (rule scan_messages_top_level)
      from Inr it scanned "2.prems"(1)
      have rest: "fetch_groups env thr gs ps (print (lit ''Processing group: '' @ g) w) = (Inr posts', w')"
        by simp
      show ?thesis
        by (rule "2.IH"(2) [OF Inr refl it [symmetric] scanned rest top])
    qed
  qed
qed

lemma fetch_posts_top_level:
  assumes "fetch_posts cfg env w = (Inr posts, w1)"
  shows "\<forall>i\<in>set posts. reply_to_msg_id (fst (snd i)) = None"
proof -
  from assms obtain thr w' where "fetch_groups env thr (groups cfg) [] w = (Inr posts, w')"
    by (auto simp: fetch_posts_def split: sum.splits prod.splits)
  then show ?thesis
    by (rule fetch_groups_top_level) simp
qed

lemma collect_comments_files:
  "files (snd (collect_comments env posts comments w)) = files w"
proof (induction env posts comments w rule: collect_comments.induct)
  case (1 env comments w)
  show ?case by simp
next
  case (2 env entity post g posts comments w)
  show ?case
  proof (cases "replies post = None")
    case True
    with "2.IH"(1) show ?thesis by simp
  next
    case False
    obtain rs fin where it: "iter_messages env entity (Some (msg_id post)) = (rs, fin)"
      by (cases "iter_messages env entity (Some (msg_id post))")
    show ?thesis
    proof (cases fin)
      case None
      with False it "2.IH"(2) [OF False it [symmetric] refl None] show ?thesis
        by auto
    next
      case (Some err)
      show ?thesis
      proof (cases err)
        case (MsgIdInvalidError e)
        with False it Some "2.IH"(3) [OF False it [symmetric] refl Some MsgIdInvalidError]
        show ?thesis
          by (auto simp: print_def)
      qed (use False it Some in auto)
    qed
  qed
qed

lemma fetch_comments_files: "files (snd (fetch_comments cfg env posts w)) = files w"
  using collect_comments_files [of env posts "[]" w]
  by (cases "collect_comments env posts [] w")
    (auto simp: fetch_comments_def print_def Let_def split: sum.splits)

lemma filter_posts_has_text:
  "i \<in> set (filter_posts_by_keywords cfg env posts) \<Longrightarrow> msg_text (fst (snd i)) \<noteq> None"
  by (auto simp: filter_posts_by_keywords_def filter_posts_loop_eq has_keyword_def
        split: option.splits)

lemma run_posts_file:
  assumes "fetch_posts cfg env w = (Inr posts, w1)"
  shows "files (snd (run cfg env w)) ''saved_posts.md'' =
     Some (concat (map (projr \<circ> post_entry env (cfg_keywords cfg))
       (sort_key (\<lambda>x. date (fst (snd x))) (filter_posts_by_keywords cfg env posts))))"
proof -
  let ?kept = "filter_posts_by_keywords cfg env posts"
  let ?w2 = "snd (new_post_list ?kept w1)"
  let ?saved = "save_posts cfg env (fresh w1) ?w2"
  have list: "post_lists ?w2 (fresh w1) = ?kept"
    by (simp add: new_post_list_def)
  have "takeWhile (\<lambda>i. \<not> isl (post_entry env (cfg_keywords cfg) i))
      (sort_key (\<lambda>x. date (fst (snd x))) ?kept) = sort_key (\<lambda>x. date (fst (snd x))) ?kept"
    by (intro takeWhile_all) (simp add: post_entry_isl filter_posts_has_text)
  with list have saved: "files (snd ?saved) ''saved_posts.md'' =
      Some (concat (map (projr \<circ> post_entry env (cfg_keywords cfg))
        (sort_key (\<lambda>x. date (fst (snd x))) ?kept)))"
    by (simp only: save_posts_file fun_upd_same)
  have "files (snd (run cfg env w)) ''saved_posts.md'' = files (snd ?saved) ''saved_posts.md''"
  proof (cases ?saved)
    case (Pair res w3)
    show ?thesis
    proof (cases res)
      case (Inl err)
      with Pair assms show ?thesis
        by (simp add: run_def new_post_list_def)
    next
      case (Inr u)
      obtain res4 w4 where fc: "fetch_comments cfg env posts w3 = (res4, w4)"
        by (cases "fetch_comments cfg env posts w3")
      with fetch_comments_files [of cfg env posts w3] have f4: "files w4 = files w3"
        by simp
      show ?thesis
      proof (cases res4)
        case (Inl err)
        with Pair Inr fc f4 assms show ?thesis
          by (simp add: run_def new_post_list_def)
      next
        case comments: (Inr cs)
        have "files (snd (save_comments cfg env (fresh w4) (snd (new_comment_list cs w4))))
            ''saved_posts.md'' = files w4 ''saved_posts.md''"
          by (simp add: save_comments_file new_comment_list_def)
        with Pair Inr fc f4 comments assms show ?thesis
          by (simp add: run_def new_post_list_def new_comment_list_def)
      qed
    qed
  qed
  with saved show ?thesis
    by simp
qed

text \<open>
  C4. Whatever the remote streams deliver, a fetched post list holds no message whose
  \<^verbatim>\<open>reply_to_msg_id\<close> is set. The posts digest written by the run is made of the entries
  of the fetched posts that pass the keyword filter, so no entry of it belongs to a reply.
\<close>

theorem fetch_posts_top_level_only:
  "fetch_posts cfg env w = (Inr posts, w1) \<longrightarrow>
     (\<forall>i\<in>set posts. reply_to_msg_id (fst (snd i)) = None)
     \<and> files (snd (run cfg env w)) ''saved_posts.md'' =
         Some (concat (map (projr \<circ> post_entry env (cfg_keywords cfg))
           (sort_key (\<lambda>x. date (fst (snd x))) (filter_posts_by_keywords cfg env posts))))
     \<and> (\<forall>i\<in>set (sort_key (\<lambda>x. date (fst (snd x))) (filter_posts_by_keywords cfg env posts)).
           i \<in> set posts \<and> reply_to_msg_id (fst (snd i)) = None)"
proof
  assume f: "fetch_posts cfg env w = (Inr posts, w1)"
  then have top: "\<forall>i\<in>set posts. reply_to_msg_id (fst (snd i)) = None"
    by (rule fetch_posts_top_level)
  have sub: "set (sort_key (\<lambda>x. date (fst (snd x))) (filter_posts_by_keywords cfg env posts))
      \<subseteq> set posts"
    by (simp add: filter_posts_by_keywords_def filter_posts_loop_eq)
  from top sub run_posts_file [OF f]
  show "(\<forall>i\<in>set posts. reply_to_msg_id (fst (snd i)) = None)
     \<and> files (snd (run cfg env w)) ''saved_posts.md'' =
         Some (concat (map (projr \<circ> post_entry env (cfg_keywords cfg))
           (sort_key (\<lambda>x. date (fst (snd x))) (filter_posts_by_keywords cfg env posts))))
     \<and> (\<forall>i\<in>set (sort_key (\<lambda>x. date (fst (snd x))) (filter_posts_by_keywords cfg env posts)).
           i \<in> set posts \<and> reply_to_msg_id (fst (snd i)) = None)"
    by blast
qed

theorem fetch_posts_top_level_only_witness:
  "fst (fetch_posts ex_cfg ex_env ex_world)
     = Inr [(ex_chan, ex_post3, lit ''a''), (ex_chan, ex_post2, lit ''a''), (ex_chan, ex_post1, lit ''a'')]
   \<and> reply_to_msg_id ex_reply = Some 1
   \<and> ex_reply \<in> set (fst (iter_messages ex_env ex_chan None))
   \<and> files (snd (run ex_cfg ex_env ex_world)) ''saved_posts.md''
     = Some (projr (post_entry ex_env [lit ''urgent''] (ex_chan, ex_post1, lit ''a'')))"
proof -
  let ?posts = "[(ex_chan, ex_post3, lit ''a''), (ex_chan, ex_post2, lit ''a''), (ex_chan, ex_post1, lit ''a'')]"
  have fetched: "fst (fetch_posts ex_cfg ex_env ex_world) = Inr ?posts"
    by code_simp
  then have f: "fetch_posts ex_cfg ex_env ex_world = (Inr ?posts, snd (fetch_posts ex_cfg ex_env ex_world))"
    by (simp add: prod_eq_iff)
  have kept: "filter_posts_by_keywords ex_cfg ex_env ?posts = [(ex_chan, ex_post1, lit ''a'')]"
    by code_simp
  have kws: "cfg_keywords ex_cfg = [lit ''urgent'']"
    by (simp add: ex_cfg_def)
  have reply: "reply_to_msg_id ex_reply = Some 1"
    by (simp add: ex_reply_def)
  have streamed: "ex_reply \<in> set (fst (iter_messages ex_env ex_chan None))"
    by (simp add: ex_env_def)
  from fetch_posts_top_level_only [THEN mp, OF f]
  have "files (snd (run ex_cfg ex_env ex_world)) ''saved_posts.md''
      = Some (projr (post_entry ex_env [lit ''urgent''] (ex_chan, ex_post1, lit ''a'')))"
    unfolding kept kws by simp
  with fetched reply streamed show ?thesis
    by (intro conjI)
qed

section \<open>Properties of the comment fetcher\<close>

lemma collect_comments_eq:
  assumes "\<forall>i\<in>set posts. replies (fst (snd i)) \<noteq> None \<longrightarrow>
      snd (iter_messages env (fst i) (Some (msg_id (fst (snd i))))) = None
      \<or> (\<exists>e. snd (iter_messages env (fst i) (Some (msg_id (fst (snd i)))))
              = Some (MsgIdInvalidError e))"
  shows "collect_comments env posts comments w =
     (Inr (comments @ concat (map (delivered env) posts)),
      w\<lparr>console := console w @ concat (map (skip_report env) posts)\<rparr>)"
  using assms
proof (induction env posts comments w rule: collect_comments.induct)
  case (1 env comments w)
  show ?case by simp
next
  case (2 env entity post g posts comments w)
  from "2.prems" have rest: "\<forall>i\<in>set posts. replies (fst (snd i)) \<noteq> None \<longrightarrow>
      snd (iter_messages env (fst i) (Some (msg_id (fst (snd i))))) = None
      \<or> (\<exists>e. snd (iter_messages env (fst i) (Some (msg_id (fst (snd i)))))
              = Some (MsgIdInvalidError e))"
    by simp
  show ?case
  proof (cases "replies post = None")
    case True
    with "2.IH"(1) [OF True rest] show ?thesis
      by (simp add: delivered_def skip_report_def)
  next
    case False
    obtain rs fin where it: "iter_messages env entity (Some (msg_id post)) = (rs, fin)"
      by (cases "iter_messages env entity (Some (msg_id post))")
    from "2.prems" False it have ok: "fin = None \<or> (\<exists>e. fin = Some (MsgIdInvalidError e))"
      by simp
    show ?thesis
    proof (cases fin)
      case None
      with False it "2.IH"(2) [OF False it [symmetric] refl None rest] show ?thesis
        by (auto simp: delivered_def skip_report_def)
    next
      case (Some err)
      with ok obtain e where err: "err = MsgIdInvalidError e"
        by auto
      with False it Some "2.IH"(3) [OF False it [symmetric] refl Some err rest] show ?thesis
        by (auto simp: delivered_def skip_report_def print_def)
    qed
  qed
qed

text \<open>
  C7, as stated, fails: a reply that the stream yields before it raises has already been
  appended, and it is returned if it holds a keyword.
\<close>

theorem fetch_comments_keeps_partial_counterexample:
  "snd (iter_messages ex_env_invalid ex_chan (Some (msg_id ex_post1)))
     = Some (MsgIdInvalidError (lit ''MSG_ID_INVALID''))
   \<and> fst (fetch_comments ex_cfg ex_env_invalid [(ex_chan, ex_post1, lit ''a'')] ex_world)
     = Inr [(ex_chan, ex_reply, lit ''a'', ex_post1)]"
  by code_simp

text \<open>
  C7, amended. If the comment streams end normally or with \<^verbatim>\<open>MsgIdInvalidError\<close>, the
  fetcher returns: the error never aborts it. It returns, in order, the comments with a
  keyword among all replies that the streams of the posts delivered, so the posts after a
  failing one are fetched as usual, and of the failing post the replies delivered before
  the error are kept and only the later ones are missing. For each failing post one line
  is printed, before the final count.
\<close>

theorem fetch_comments_skips_invalid:
  "(\<forall>i\<in>set posts. replies (fst (snd i)) \<noteq> None \<longrightarrow>
      snd (iter_messages env (fst i) (Some (msg_id (fst (snd i))))) = None
      \<or> (\<exists>e. snd (iter_messages env (fst i) (Some (msg_id (fst (snd i)))))
              = Some (MsgIdInvalidError e)))
   \<longrightarrow>
     fst (fetch_comments cfg env posts w) =
       Inr (filter (\<lambda>(entity, reply, group_username, post). has_keyword env (cfg_keywords cfg) reply)
              (concat (map (delivered env) posts)))
     \<and> console (snd (fetch_comments cfg env posts w)) =
         console w @ concat (map (skip_report env) posts)
         @ [lit ''Found ''
            @ str_nat (length (filter
                 (\<lambda>(entity, reply, group_username, post). has_keyword env (cfg_keywords cfg) reply)
                 (concat (map (delivered env) posts))))
            @ lit '' comments with keywords for posts in the specified period.'']"
proof
  assume "\<forall>i\<in>set posts. replies (fst (snd i)) \<noteq> None \<longrightarrow>
      snd (iter_messages env (fst i) (Some (msg_id (fst (snd i))))) = None
      \<or> (\<exists>e. snd (iter_messages env (fst i) (Some (msg_id (fst (snd i)))))
              = Some (MsgIdInvalidError e))"
  then have "collect_comments env posts [] w =
     (Inr ([] @ concat (map (delivered env) posts)),
      w\<lparr>console := console w @ concat (map (skip_report env) posts)\<rparr>)"
    by (rule collect_comments_eq)
  then show "fst (fetch_comments cfg env posts w) =
       Inr (filter (\<lambda>(entity, reply, group_username, post). has_keyword env (cfg_keywords cfg) reply)
              (concat (map (delivered env) posts)))
     \<and> console (snd (fetch_comments cfg env posts w)) =
         console w @ concat (map (skip_report env) posts)
         @ [lit ''Found ''
            @ str_nat (length (filter
                 (\<lambda>(entity, reply, group_username, post). has_keyword env (cfg_keywords cfg) reply)
                 (concat (map (delivered env) posts))))
            @ lit '' comments with keywords for posts in the specified period.'']"
    by (simp add: fetch_comments_def filter_comments_loop_eq print_def Let_def)
qed

theorem fetch_comments_skips_invalid_witness:
  "fst (fetch_comments ex_cfg ex_env_invalid
          [(ex_chan, ex_post3, lit ''a''), (ex_chan, ex_post2, lit ''a''), (ex_chan, ex_post1, lit ''a'')]
          ex_world)
     = Inr [(ex_chan, ex_comment3, lit ''a'', ex_post3), (ex_chan, ex_reply, lit ''a'', ex_post1)]
   \<and> console (snd (fetch_comments ex_cfg ex_env_invalid
          [(ex_chan, ex_post3, lit ''a''), (ex_chan, ex_post2, lit ''a''), (ex_chan, ex_post1, lit ''a'')]
          ex_world))
     = [lit ''Skipping post 1 from group a due to error: MSG_ID_INVALID'',
        lit ''Found 2 comments with keywords for posts in the specified period.'']"
proof -
  let ?posts = "[(ex_chan, ex_post3, lit ''a''), (ex_chan, ex_post2, lit ''a''), (ex_chan, ex_post1, lit ''a'')]"
  have h: "\<forall>i\<in>set ?posts. replies (fst (snd i)) \<noteq> None \<longrightarrow>
      snd (iter_messages ex_env_invalid (fst i) (Some (msg_id (fst (snd i))))) = None
      \<or> (\<exists>e. snd (iter_messages ex_env_invalid (fst i) (Some (msg_id (fst (snd i)))))
              = Some (MsgIdInvalidError e))"
    by (simp add: ex_env_invalid_def ex_post1_def ex_post2_def ex_post3_def)
  have d: "concat (map (delivered ex_env_invalid) ?posts)
      = [(ex_chan, ex_comment3, lit ''a'', ex_post3), (ex_chan, ex_reply, lit ''a'', ex_post1)]"
    by (simp add: delivered_def ex_env_invalid_def ex_post1_def ex_post2_def ex_post3_def)
  have k: "filter (\<lambda>(entity, reply, group_username, post). has_keyword ex_env_invalid (cfg_keywords ex_cfg) reply)
      [(ex_chan, ex_comment3, lit ''a'', ex_post3), (ex_chan, ex_reply, lit ''a'', ex_post1)]
      = [(ex_chan, ex_comment3, lit ''a'', ex_post3), (ex_chan, ex_reply, lit ''a'', ex_post1)]"
    by code_simp
  have s: "concat (map (skip_report ex_env_invalid) ?posts)
      = [lit ''Skipping post 1 from group a due to error: MSG_ID_INVALID'']"
    by (simp add: skip_report_def ex_env_invalid_def ex_post1_def ex_post2_def ex_post3_def
          str_int_def str_nat.simps lit_def)
  have c: "console ex_world = []"
    by (simp add: ex_world_def)
  have n: "str_nat (length [(ex_chan, ex_comment3, lit ''a'', ex_post3), (ex_chan, ex_reply, lit ''a'', ex_post1)])
      = lit ''2''"
    by (simp add: str_nat.simps lit_def)
  from fetch_comments_skips_invalid [where cfg = ex_cfg and w = ex_world, THEN mp, OF h]
  show ?thesis
    unfolding d k s c n by (simp add: lit_def)
qed

section \<open>Properties of the highlighter\<close>

declare sub_pieces.simps [simp del]

lemma match_literal_iff:
  "match_literal ic k s \<longleftrightarrow> length k \<le> length s \<and> list_all2 ic k (take (length k) s)"
  by (induction ic k s rule: match_literal.induct) auto

lemma match_literal_Cons:
  "match_literal ic (p # ps) s \<longleftrightarrow> (\<exists>c cs. s = c # cs \<and> ic p c \<and> match_literal ic ps cs)"
  by (cases s) auto

lemma match_alternatives_Some:
  "match_alternatives ic alts adv s = Some n \<Longrightarrow>
     \<exists>k\<in>set alts. n = length k \<and> match_literal ic k s \<and> \<not> (adv \<and> k = [])"
  by (induction alts) (auto split: if_splits)

lemma match_alternatives_None:
  "match_alternatives ic alts adv s = None \<longleftrightarrow>
     (\<forall>k\<in>set alts. match_literal ic k s \<longrightarrow> adv \<and> k = [])"
  by (induction alts) auto

lemma sub_pieces_Some:
  "match_alternatives ic alts adv s = Some n \<Longrightarrow>
     sub_pieces ic alts adv s = Match (take n s) # sub_pieces ic alts (n = 0) (drop n s)"
  by (subst sub_pieces.simps) simp

lemma sub_pieces_None_Nil:
  "match_alternatives ic alts adv [] = None \<Longrightarrow> sub_pieces ic alts adv [] = []"
  by (subst sub_pieces.simps) simp

lemma sub_pieces_None_Cons:
  "match_alternatives ic alts adv (c # cs) = None \<Longrightarrow>
     sub_pieces ic alts adv (c # cs) = Lit c # sub_pieces ic alts False cs"
  by (subst sub_pieces.simps) simp

lemma plain_sub_pieces: "concat (map plain (sub_pieces ic alts adv s)) = s"
proof (induction ic alts adv s rule: sub_pieces.induct)
  case (1 ic alts adv s)
  show ?case
  proof (cases "match_alternatives ic alts adv s")
    case (Some n)
    with "1.IH"(2) [OF Some] show ?thesis
      by (simp add: sub_pieces_Some)
  next
    case None
    show ?thesis
    proof (cases s)
      case Nil
      with None show ?thesis
        by (simp add: sub_pieces_None_Nil)
    next
      case (Cons c cs)
      with None "1.IH"(1) [OF None Cons] show ?thesis
        by (simp add: sub_pieces_None_Cons)
    qed
  qed
qed

lemma match_is_keyword:
  "Match g \<in> set (sub_pieces ic alts adv s) \<Longrightarrow> \<exists>k\<in>set alts. list_all2 ic k g"
proof (induction ic alts adv s rule: sub_pieces.induct)
  case (1 ic alts adv s)
  show ?case
  proof (cases "match_alternatives ic alts adv s")
    case (Some n)
    from match_alternatives_Some [OF Some] obtain k where
      k: "k \<in> set alts" "n = length k" "match_literal ic k s"
      by blast
    from k have "list_all2 ic k (take n s)"
      by (simp add: match_literal_iff)
    with k(1) "1.prems" "1.IH"(2) [OF Some] Some show ?thesis
      by (auto simp: sub_pieces_Some)
  next
    case None
    show ?thesis
    proof (cases s)
      case Nil
      with None "1.prems" show ?thesis
        by (simp add: sub_pieces_None_Nil)
    next
      case (Cons c cs)
      with None "1.prems" "1.IH"(1) [OF None Cons] show ?thesis
        by (simp add: sub_pieces_None_Cons)
    qed
  qed
qed

lemma spans_bounds: "(b, e) \<in> set (spans pos ps) \<Longrightarrow> pos \<le> b \<and> b \<le> e"
proof (induction ps arbitrary: pos)
  case Nil
  then show ?case by simp
next
  case (Cons x ps)
  then show ?case
    by (cases x) (force dest: Cons.IH)+
qed

lemma spans_sorted: "sorted_wrt (\<lambda>x y. snd x \<le> fst y) (spans pos ps)"
proof (induction ps arbitrary: pos)
  case Nil
  show ?case by simp
next
  case (Cons x ps)
  show ?case
  proof (cases x)
    case (Lit c)
    with Cons show ?thesis by simp
  next
    case (Match g)
    with Cons show ?thesis
      by (auto dest: spans_bounds)
  qed
qed

lemma occurrence_covered:
  assumes "p \<le> length s" and "k \<in> set alts"
    and "match_literal ic k (drop p s)"
    and "adv \<Longrightarrow> 0 < p \<or> k \<noteq> []"
  shows "\<exists>(b, e)\<in>set (spans pos (sub_pieces ic alts adv s)).
           b \<le> pos + p \<and> (pos + p < e \<or> (b = e \<and> e = pos + p))"
  using assms
proof (induction ic alts adv s arbitrary: p pos rule: sub_pieces.induct)
  case (1 ic alts adv s)
  show ?case
  proof (cases "match_alternatives ic alts adv s")
    case (Some n)
    from match_alternatives_bound [OF Some] have n: "n \<le> length s"
      by simp
    with Some have sp: "spans pos (sub_pieces ic alts adv s) =
        (pos, pos + n) # spans (pos + n) (sub_pieces ic alts (n = 0) (drop n s))"
      by (simp add: sub_pieces_Some)
    show ?thesis
    proof (cases "p < n")
      case True
      then show ?thesis
        unfolding sp by simp
    next
      case False
      show ?thesis
      proof (cases "n = 0 \<and> p = 0 \<and> k = []")
        case True
        then show ?thesis
          unfolding sp by simp
      next
        case other: False
        from "1.prems"(1) False have a: "p - n \<le> length (drop n s)"
          by simp
        from "1.prems"(3) False have b: "match_literal ic k (drop (p - n) (drop n s))"
          by simp
        from other False have c: "n = 0 \<Longrightarrow> 0 < p - n \<or> k \<noteq> []"
          by auto
        from "1.IH"(2) [OF Some a "1.prems"(2) b c, of "pos + n"]
        obtain b' e' where
          in_rest: "(b', e') \<in> set (spans (pos + n) (sub_pieces ic alts (n = 0) (drop n s)))" and
          lo: "b' \<le> pos + n + (p - n)" and
          hi: "pos + n + (p - n) < e' \<or> (b' = e' \<and> e' = pos + n + (p - n))"
          by auto
        from False have "pos + n + (p - n) = pos + p"
          by simp
        with in_rest lo hi show ?thesis
          unfolding sp by (intro bexI [where x = "(b', e')"]) simp_all
      qed
    qed
  next
    case None
    from None "1.prems"(2) have no: "match_literal ic k s \<Longrightarrow> adv \<and> k = []"
      by (simp add: match_alternatives_None)
    show ?thesis
    proof (cases s)
      case Nil
      with "1.prems"(1,3) no "1.prems"(4) show ?thesis
        by auto
    next
      case (Cons c cs)
      show ?thesis
      proof (cases p)
        case 0
        with "1.prems"(3) no "1.prems"(4) show ?thesis
          by auto
      next
        case (Suc q)
        with Cons "1.prems"(1,3) have a: "q \<le> length cs"
          and b: "match_literal ic k (drop q cs)"
          by simp_all
        from "1.IH"(1) [OF None Cons a "1.prems"(2) b, of "Suc pos"]
        obtain b' e' where
          in_rest: "(b', e') \<in> set (spans (Suc pos) (sub_pieces ic alts False cs))" and
          lo: "b' \<le> Suc pos + q" and
          hi: "Suc pos + q < e' \<or> (b' = e' \<and> e' = Suc pos + q)"
          by auto
        from None Cons have sp: "spans pos (sub_pieces ic alts adv s)
            = spans (Suc pos) (sub_pieces ic alts False cs)"
          by (simp add: sub_pieces_None_Cons)
        from in_rest lo hi Suc show ?thesis
          unfolding sp by (intro bexI [where x = "(b', e')"]) auto
      qed
    qed
  qed
qed

lemma span_is_match:
  "(b, e) \<in> set (spans pos ps) \<Longrightarrow>
     Match (take (e - b) (drop (b - pos) (concat (map plain ps)))) \<in> set ps"
proof (induction ps arbitrary: pos)
  case Nil
  then show ?case by simp
next
  case (Cons x ps)
  show ?case
  proof (cases x)
    case (Lit c)
    with Cons.prems have in_rest: "(b, e) \<in> set (spans (Suc pos) ps)"
      by simp
    from spans_bounds [OF in_rest] have "b - pos = Suc (b - Suc pos)"
      by arith
    with Cons.IH [OF in_rest] Lit show ?thesis
      by simp
  next
    case (Match g)
    show ?thesis
    proof (cases "(b, e) = (pos, pos + length g)")
      case True
      with Match show ?thesis
        by simp
    next
      case False
      with Cons.prems Match have in_rest: "(b, e) \<in> set (spans (pos + length g) ps)"
        by auto
      from spans_bounds [OF in_rest] have far: "length g \<le> b - pos"
        and off: "b - pos - length g = b - (pos + length g)"
        by arith+
      then have "drop (b - pos) (g @ concat (map plain ps))
          = drop (b - (pos + length g)) (concat (map plain ps))"
        by simp
      with Cons.IH [OF in_rest] Match show ?thesis
        by simp
    qed
  qed
qed

lemma sub_pieces_empty_pattern:
  "sub_pieces ic [[]] False s = concat (map (\<lambda>c. [Match [], Lit c]) s) @ [Match []]"
proof (induction s)
  case Nil
  have "match_alternatives ic [[]] False [] = Some 0"
    and "match_alternatives ic [[]] True [] = None"
    by simp_all
  then show ?case
    by (simp add: sub_pieces_Some sub_pieces_None_Nil)
next
  case (Cons c cs)
  have "match_alternatives ic [[]] False (c # cs) = Some 0"
    and "match_alternatives ic [[]] True (c # cs) = None"
    by simp_all
  with Cons show ?case
    by (simp add: sub_pieces_Some sub_pieces_None_Cons)
qed

lemma render_markup:
  \<open>render p =
     (case p of
        Lit c \<Rightarrow> [c]
      | Match g \<Rightarrow>
          lit ''<span style="background-color: yellow; color: black; font-weight: bold;">''
          @ g @ lit ''</span>'')\<close>
  by (cases p) (simp_all add: repl_def span_open_def)

lemma highlight_no_keywords:
  "highlight_keywords env s [] = concat (map (\<lambda>c. repl [] @ [c]) s) @ repl []"
proof -
  have "concat (map render (concat (map (\<lambda>c. [Match [], Lit c]) s) @ [Match []]))
      = concat (map (\<lambda>c. repl [] @ [c]) s) @ repl []"
    by (induction s) simp_all
  then show ?thesis
    by (simp add: highlight_keywords_def pattern_alternatives_def sub_pieces_empty_pattern)
qed

text \<open>
  C2. The result is the pieces of the text joined, a match piece between the opening
  \<^verbatim>\<open><span ...>\<close> and the closing \<^verbatim>\<open></span>\<close> and every other character copied. The
  pieces spell the original text, so nothing outside the matches changes and no character
  is wrapped twice; the matches lie one behind the other. What is wrapped is the slice of
  the original text itself, in its own casing, and it matches an alternative of the
  pattern character by character under \<^verbatim>\<open>re.IGNORECASE\<close>. Every occurrence of a
  keyword, taken without case, starts inside a wrapped match (or is an empty occurrence
  at the place of an empty wrapped match): the occurrences that are not wrapped
  themselves are those that overlap a match found earlier in the scan. With no keyword
  at all the pattern is empty, and an empty span is put before every character and at
  the end.
\<close>

theorem highlight_keywords_wraps:
  \<open>highlight_keywords env txt kws
     = concat (map (\<lambda>p. case p of
                      Lit c \<Rightarrow> [c]
                    | Match g \<Rightarrow>
                        lit ''<span style="background-color: yellow; color: black; font-weight: bold;">''
                        @ g @ lit ''</span>'')
         (sub_pieces (ignorecase env) (pattern_alternatives kws) False txt))
   \<and> concat (map plain (sub_pieces (ignorecase env) (pattern_alternatives kws) False txt)) = txt
   \<and> sorted_wrt (\<lambda>x y. snd x \<le> fst y)
        (spans 0 (sub_pieces (ignorecase env) (pattern_alternatives kws) False txt))
   \<and> (\<forall>(b, e)\<in>set (spans 0 (sub_pieces (ignorecase env) (pattern_alternatives kws) False txt)).
         b \<le> e
         \<and> Match (take (e - b) (drop b txt))
             \<in> set (sub_pieces (ignorecase env) (pattern_alternatives kws) False txt)
         \<and> (\<exists>k\<in>set (pattern_alternatives kws).
               list_all2 (ignorecase env) k (take (e - b) (drop b txt))))
   \<and> (\<forall>p k. p \<le> length txt \<and> k \<in> set kws \<and> match_literal (ignorecase env) k (drop p txt) \<longrightarrow>
         (\<exists>(b, e)\<in>set (spans 0 (sub_pieces (ignorecase env) (pattern_alternatives kws) False txt)).
            b \<le> p \<and> (p < e \<or> (b = e \<and> e = p))))
   \<and> highlight_keywords env txt []
     = concat (map (\<lambda>c.
           lit ''<span style="background-color: yellow; color: black; font-weight: bold;">''
           @ lit ''</span>'' @ [c]) txt)
       @ lit ''<span style="background-color: yellow; color: black; font-weight: bold;">''
       @ lit ''</span>''\<close>
proof (intro conjI ballI allI impI)
  show \<open>highlight_keywords env txt kws
      = concat (map (\<lambda>p. case p of
                      Lit c \<Rightarrow> [c]
                    | Match g \<Rightarrow>
                        lit ''<span style="background-color: yellow; color: black; font-weight: bold;">''
                        @ g @ lit ''</span>'')
         (sub_pieces (ignorecase env) (pattern_alternatives kws) False txt))\<close>
    unfolding highlight_keywords_def render_markup [abs_def] ..
  show "concat (map plain (sub_pieces (ignorecase env) (pattern_alternatives kws) False txt)) = txt"
    by (rule plain_sub_pieces)
  show "sorted_wrt (\<lambda>x y. snd x \<le> fst y)
      (spans 0 (sub_pieces (ignorecase env) (pattern_alternatives kws) False txt))"
    by (rule spans_sorted)
  show \<open>highlight_keywords env txt []
      = concat (map (\<lambda>c.
           lit ''<span style="background-color: yellow; color: black; font-weight: bold;">''
           @ lit ''</span>'' @ [c]) txt)
       @ lit ''<span style="background-color: yellow; color: black; font-weight: bold;">''
       @ lit ''</span>''\<close>
    by (simp add: highlight_no_keywords repl_def span_open_def)
next
  fix x
  assume x: "x \<in> set (spans 0 (sub_pieces (ignorecase env) (pattern_alternatives kws) False txt))"
  obtain b e where be: "x = (b, e)"
    by (cases x)
  from x be spans_bounds [of b e 0] have le: "b \<le> e"
    by simp
  from x be
    span_is_match [of b e 0 "sub_pieces (ignorecase env) (pattern_alternatives kws) False txt"]
  have m: "Match (take (e - b) (drop b txt))
      \<in> set (sub_pieces (ignorecase env) (pattern_alternatives kws) False txt)"
    by (simp add: plain_sub_pieces)
  from match_is_keyword [OF m]
  have "\<exists>k\<in>set (pattern_alternatives kws).
      list_all2 (ignorecase env) k (take (e - b) (drop b txt))" .
  with le m be show "case x of (b, e) \<Rightarrow>
      b \<le> e
      \<and> Match (take (e - b) (drop b txt))
          \<in> set (sub_pieces (ignorecase env) (pattern_alternatives kws) False txt)
      \<and> (\<exists>k\<in>set (pattern_alternatives kws).
            list_all2 (ignorecase env) k (take (e - b) (drop b txt)))"
    by simp
next
  fix p k
  assume h: "p \<le> length txt \<and> k \<in> set kws \<and> match_literal (ignorecase env) k (drop p txt)"
  then have "k \<in> set (pattern_alternatives kws)"
    by (auto simp: pattern_alternatives_def)
  with h occurrence_covered [of p "txt" k "pattern_alternatives kws" "ignorecase env" False 0]
  show "\<exists>(b, e)\<in>set (spans 0 (sub_pieces (ignorecase env) (pattern_alternatives kws) False txt)).
      b \<le> p \<and> (p < e \<or> (b = e \<and> e = p))"
    by simp
qed

theorem highlight_keywords_wraps_witness:
  \<open>highlight_keywords ex_env (lit ''An Urgent fix, urgent'') [lit ''urgent'']
     = lit ''An <span style="background-color: yellow; color: black; font-weight: bold;">Urgent</span> fix, <span style="background-color: yellow; color: black; font-weight: bold;">urgent</span>''
   \<and> spans 0 (sub_pieces (ignorecase ex_env) (pattern_alternatives [lit ''urgent'']) False
         (lit ''An Urgent fix, urgent''))
     = [(3, 9), (15, 21)]
   \<and> match_literal (ignorecase ex_env) (lit ''urgent'') (drop 15 (lit ''An Urgent fix, urgent''))
   \<and> (\<exists>(b, e)\<in>set [(3, 9), (15, 21)]. b \<le> (15::nat) \<and> (15 < e \<or> (b = e \<and> e = 15)))
   \<and> Match (lit ''Urgent'')
       \<in> set (sub_pieces (ignorecase ex_env) (pattern_alternatives [lit ''urgent'']) False
            (lit ''An Urgent fix, urgent''))
   \<and> spans 0 (sub_pieces (ignorecase ex_env) (pattern_alternatives [[233]]) False [201, 116, 233])
     = [(0, 1), (2, 3)]
   \<and> highlight_keywords ex_env (lit ''ab'') []
     = lit ''<span style="background-color: yellow; color: black; font-weight: bold;"></span>a<span style="background-color: yellow; color: black; font-weight: bold;"></span>b<span style="background-color: yellow; color: black; font-weight: bold;"></span>''\<close>
proof -
  let ?txt = "lit ''An Urgent fix, urgent''"
  let ?ps = "sub_pieces (ignorecase ex_env) (pattern_alternatives [lit ''urgent'']) False ?txt"
  note W = highlight_keywords_wraps [of ex_env ?txt "[lit ''urgent'']"]
  have sp: "spans 0 ?ps = [(3, 9), (15, 21)]"
    by code_simp
  have sp': "spans 0 (sub_pieces (ignorecase ex_env) (pattern_alternatives [[233]]) False
      [201, 116, 233]) = [(0, 1), (2, 3)]"
    by code_simp
  have out: \<open>highlight_keywords ex_env ?txt [lit ''urgent'']
      = lit ''An <span style="background-color: yellow; color: black; font-weight: bold;">Urgent</span> fix, <span style="background-color: yellow; color: black; font-weight: bold;">urgent</span>''\<close>
    by code_simp
  have occ: "15 \<le> length ?txt \<and> lit ''urgent'' \<in> set [lit ''urgent'']
      \<and> match_literal (ignorecase ex_env) (lit ''urgent'') (drop 15 ?txt)"
    by code_simp
  from W [THEN conjunct2, THEN conjunct2, THEN conjunct2, THEN conjunct2, THEN conjunct1,
      THEN spec, THEN spec, THEN mp, OF occ]
  have covered: "\<exists>(b, e)\<in>set [(3, 9), (15, 21)]. b \<le> (15::nat) \<and> (15 < e \<or> (b = e \<and> e = 15))"
    unfolding sp .
  have first: "(3, 9) \<in> set (spans 0 ?ps)"
    unfolding sp by simp
  from W [THEN conjunct2, THEN conjunct2, THEN conjunct2, THEN conjunct1, THEN bspec, OF first]
  have m: "Match (lit ''Urgent'') \<in> set ?ps"
    by (simp add: lit_def)
  from highlight_keywords_wraps [of ex_env "lit ''ab''" "[]", THEN conjunct2, THEN conjunct2,
      THEN conjunct2, THEN conjunct2, THEN conjunct2]
  have none: \<open>highlight_keywords ex_env (lit ''ab'') []
      = lit ''<span style="background-color: yellow; color: black; font-weight: bold;"></span>a<span style="background-color: yellow; color: black; font-weight: bold;"></span>b<span style="background-color: yellow; color: black; font-weight: bold;"></span>''\<close>
    by (simp add: lit_def)
  from occ have occ': "match_literal (ignorecase ex_env) (lit ''urgent'') (drop 15 ?txt)"
    by (elim conjE)
  from out sp occ' covered m sp' none show ?thesis
    by (intro conjI)
qed

lemma match_alternatives_same_set:
  assumes same: "set alts1 = set alts2"
    and free: "\<forall>k1\<in>set alts1. \<forall>k2\<in>set alts1. \<forall>s.
      match_literal ic k1 s \<and> match_literal ic k2 s \<longrightarrow> length k1 = length k2"
  shows "match_alternatives ic alts1 adv s = match_alternatives ic alts2 adv s"
proof (cases "match_alternatives ic alts1 adv s")
  case None
  with same have "match_alternatives ic alts2 adv s = None"
    by (simp add: match_alternatives_None)
  with None show ?thesis
    by simp
next
  case (Some n)
  from match_alternatives_Some [OF Some] obtain k1 where
    k1: "k1 \<in> set alts1" "n = length k1" "match_literal ic k1 s" "\<not> (adv \<and> k1 = [])"
    by blast
  with same have "match_alternatives ic alts2 adv s \<noteq> None"
    by (auto simp: match_alternatives_None)
  then obtain m where m: "match_alternatives ic alts2 adv s = Some m"
    by auto
  from match_alternatives_Some [OF m] same obtain k2 where
    k2: "k2 \<in> set alts1" "m = length k2" "match_literal ic k2 s"
    by blast
  from free k1(1,3) k2(1,3) have "length k1 = length k2"
    by blast
  with Some m k1(2) k2(2) show ?thesis
    by simp
qed

lemma sub_pieces_same_matches:
  "(\<And>adv s. match_alternatives ic alts1 adv s = match_alternatives ic alts2 adv s) \<Longrightarrow>
     sub_pieces ic alts1 adv s = sub_pieces ic alts2 adv s"
proof (induction ic alts1 adv s rule: sub_pieces.induct)
  case (1 ic alts1 adv s)
  note same = "1.prems"
  show ?case
  proof (cases "match_alternatives ic alts1 adv s")
    case (Some n)
    then have other: "match_alternatives ic alts2 adv s = Some n"
      unfolding same .
    from "1.IH"(2) [OF Some same] show ?thesis
      by (simp add: sub_pieces_Some [OF Some] sub_pieces_Some [OF other])
  next
    case None
    then have other: "match_alternatives ic alts2 adv s = None"
      unfolding same .
    show ?thesis
    proof (cases s)
      case Nil
      with None other show ?thesis
        by (simp add: sub_pieces_None_Nil)
    next
      case (Cons c cs)
      from "1.IH"(1) [OF None Cons same] None other show ?thesis
        unfolding Cons by (simp add: sub_pieces_None_Cons)
    qed
  qed
qed

text \<open>
  C6, as stated, fails: with the keywords \<open>a\<close> and \<open>ab\<close> the text \<open>ab\<close> is matched at
  \<open>(0, 1)\<close> when \<open>a\<close> comes first in the list and at \<open>(0, 2)\<close> when \<open>ab\<close> comes first.
\<close>

theorem highlight_keyword_order_counterexample:
  "mset [lit ''a'', lit ''ab''] = mset [lit ''ab'', lit ''a'']
   \<and> spans 0 (sub_pieces (ignorecase ex_env) (pattern_alternatives [lit ''a'', lit ''ab''])
         False (lit ''ab'')) = [(0, 1)]
   \<and> spans 0 (sub_pieces (ignorecase ex_env) (pattern_alternatives [lit ''ab'', lit ''a''])
         False (lit ''ab'')) = [(0, 2)]
   \<and> highlight_keywords ex_env (lit ''ab'') [lit ''a'', lit ''ab'']
     \<noteq> highlight_keywords ex_env (lit ''ab'') [lit ''ab'', lit ''a'']"
proof -
  have "mset [lit ''a'', lit ''ab''] = mset [lit ''ab'', lit ''a'']"
    by (simp add: add.commute)
  moreover have "spans 0 (sub_pieces (ignorecase ex_env)
      (pattern_alternatives [lit ''a'', lit ''ab'']) False (lit ''ab'')) = [(0, 1)]"
    by code_simp
  moreover have "spans 0 (sub_pieces (ignorecase ex_env)
      (pattern_alternatives [lit ''ab'', lit ''a'']) False (lit ''ab'')) = [(0, 2)]"
    by code_simp
  moreover have "highlight_keywords ex_env (lit ''ab'') [lit ''a'', lit ''ab'']
      \<noteq> highlight_keywords ex_env (lit ''ab'') [lit ''ab'', lit ''a'']"
    by code_simp
  ultimately show ?thesis
    by (intro conjI)
qed

text \<open>
  C6, amended. If two keyword lists are permutations of each other and no two keywords
  of different length can match at the same place of a text under \<^verbatim>\<open>re.IGNORECASE\<close>
  (no keyword is, without case, a proper prefix of another keyword), then the scan finds
  the same matches for both lists, at the same places, and the highlighted text is the
  same.
\<close>

theorem highlight_keyword_order:
  "mset kws1 = mset kws2
   \<and> (\<forall>k1\<in>set kws1. \<forall>k2\<in>set kws1. \<forall>s.
         match_literal (ignorecase env) k1 s \<and> match_literal (ignorecase env) k2 s
         \<longrightarrow> length k1 = length k2)
   \<longrightarrow>
     sub_pieces (ignorecase env) (pattern_alternatives kws1) False txt
       = sub_pieces (ignorecase env) (pattern_alternatives kws2) False txt
     \<and> spans 0 (sub_pieces (ignorecase env) (pattern_alternatives kws1) False txt)
       = spans 0 (sub_pieces (ignorecase env) (pattern_alternatives kws2) False txt)
     \<and> highlight_keywords env txt kws1 = highlight_keywords env txt kws2"
proof
  assume h: "mset kws1 = mset kws2
    \<and> (\<forall>k1\<in>set kws1. \<forall>k2\<in>set kws1. \<forall>s.
          match_literal (ignorecase env) k1 s \<and> match_literal (ignorecase env) k2 s
          \<longrightarrow> length k1 = length k2)"
  then have "set kws1 = set kws2"
    by (auto dest: mset_eq_setD)
  moreover from this have "kws1 = [] \<longleftrightarrow> kws2 = []"
    by auto
  ultimately have same: "set (pattern_alternatives kws1) = set (pattern_alternatives kws2)"
    by (simp add: pattern_alternatives_def)
  from h have free: "\<forall>k1\<in>set (pattern_alternatives kws1). \<forall>k2\<in>set (pattern_alternatives kws1).
      \<forall>s. match_literal (ignorecase env) k1 s \<and> match_literal (ignorecase env) k2 s
        \<longrightarrow> length k1 = length k2"
    by (simp add: pattern_alternatives_def)
  have "sub_pieces (ignorecase env) (pattern_alternatives kws1) False txt
      = sub_pieces (ignorecase env) (pattern_alternatives kws2) False txt"
    by (rule sub_pieces_same_matches) (rule match_alternatives_same_set [OF same free])
  then show "sub_pieces (ignorecase env) (pattern_alternatives kws1) False txt
       = sub_pieces (ignorecase env) (pattern_alternatives kws2) False txt
     \<and> spans 0 (sub_pieces (ignorecase env) (pattern_alternatives kws1) False txt)
       = spans 0 (sub_pieces (ignorecase env) (pattern_alternatives kws2) False txt)
     \<and> highlight_keywords env txt kws1 = highlight_keywords env txt kws2"
    by (simp add: highlight_keywords_def)
qed

theorem highlight_keyword_order_witness:
  "mset [lit ''urgent'', lit ''fix''] = mset [lit ''fix'', lit ''urgent'']
   \<and> highlight_keywords ex_env (lit ''Urgent fix'') [lit ''urgent'', lit ''fix'']
     = highlight_keywords ex_env (lit ''Urgent fix'') [lit ''fix'', lit ''urgent'']
   \<and> spans 0 (sub_pieces (ignorecase ex_env) (pattern_alternatives [lit ''fix'', lit ''urgent''])
         False (lit ''Urgent fix''))
     = [(0, 6), (7, 10)]
   \<and> spans 0 (sub_pieces (ignorecase ex_env) (pattern_alternatives [[233], [201, 97]])
         False [233, 97])
     = [(0, 1)]
   \<and> spans 0 (sub_pieces (ignorecase ex_env) (pattern_alternatives [[201, 97], [233]])
         False [233, 97])
     = [(0, 2)]"
proof -
  have perm: "mset [lit ''urgent'', lit ''fix''] = mset [lit ''fix'', lit ''urgent'']"
    by (simp add: add.commute)
  have differ: "ex_lower 117 \<noteq> ex_lower 102"
    by (simp add: ex_lower_def)
  have apart: "\<not> (match_literal (ignorecase ex_env) (lit ''urgent'') s
      \<and> match_literal (ignorecase ex_env) (lit ''fix'') s)" for s
    using differ by (auto simp: lit_def ex_env_def match_literal_Cons)
  have free: "\<forall>k1\<in>set [lit ''urgent'', lit ''fix'']. \<forall>k2\<in>set [lit ''urgent'', lit ''fix'']. \<forall>s.
      match_literal (ignorecase ex_env) k1 s \<and> match_literal (ignorecase ex_env) k2 s
      \<longrightarrow> length k1 = length k2"
    using apart by auto
  have sp: "spans 0 (sub_pieces (ignorecase ex_env)
      (pattern_alternatives [lit ''urgent'', lit ''fix'']) False (lit ''Urgent fix''))
      = [(0, 6), (7, 10)]"
    by code_simp
  have latin1: "spans 0 (sub_pieces (ignorecase ex_env) (pattern_alternatives [[233], [201, 97]])
      False [233, 97]) = [(0, 1)]"
    and latin2: "spans 0 (sub_pieces (ignorecase ex_env) (pattern_alternatives [[201, 97], [233]])
      False [233, 97]) = [(0, 2)]"
    by code_simp+
  from highlight_keyword_order [of "[lit ''urgent'', lit ''fix'']" "[lit ''fix'', lit ''urgent'']"
      ex_env "lit ''Urgent fix''", THEN mp, OF conjI, OF perm free]
  have "spans 0 (sub_pieces (ignorecase ex_env)
        (pattern_alternatives [lit ''urgent'', lit ''fix'']) False (lit ''Urgent fix''))
        = spans 0 (sub_pieces (ignorecase ex_env)
        (pattern_alternatives [lit ''fix'', lit ''urgent'']) False (lit ''Urgent fix''))"
    and same: "highlight_keywords ex_env (lit ''Urgent fix'') [lit ''urgent'', lit ''fix'']
        = highlight_keywords ex_env (lit ''Urgent fix'') [lit ''fix'', lit ''urgent'']"
    by simp_all
  with sp have sp2: "spans 0 (sub_pieces (ignorecase ex_env)
      (pattern_alternatives [lit ''fix'', lit ''urgent'']) False (lit ''Urgent fix''))
      = [(0, 6), (7, 10)]"
    by simp
  from perm same sp2 latin1 latin2 show ?thesis
    by (intro conjI)
qed

end
